theory Spec2Isabelle
  imports Main "HOL-Library.Word" "HOL-Library.List_Lexorder"
begin

unbundle bit_operations_syntax

section \<open>Bytes, errors and panics\<close>

text \<open>
  A Go \<open>byte\<close> is an 8-bit word and a \<open>[]byte\<close> or \<open>string\<close> is a list of them
  (a Go string is a byte sequence; \<open>string(b)\<close> and \<open>[]byte(s)\<close> copy the bytes).
  Go's \<open>int\<close> is the 64-bit signed integer of the platforms the tool is built for.
\<close>

type_synonym byte = "8 word"

text \<open>A string literal as the bytes of a Go string.\<close>

definition str :: "string \<Rightarrow> byte list" where
  "str s = map of_char s"

text \<open>
  The error values of the program: the two sentinel errors of package \<open>io\<close>, the
  errors built with \<open>fmt.Errorf\<close> (one constructor for each format string, holding
  the formatted arguments; \<open>ErrReflection\<close> holds the whole message text), and
  \<open>ErrExternal\<close> for an error that comes from outside the modelled code (the HTTP
  transport, the protobuf library).
\<close>

datatype error =
    EOF
  | ErrUnexpectedEOF
  | ErrMessageSize nat int
  | ErrReadPayload error
  | ErrDecodeFrames error
  | ErrInvalidMethodFormat "byte list"
  | ErrReflectionRequestFailed error
  | ErrReflectionStatus "byte list" int
  | ErrNoResponse
  | ErrReflection "byte list"
  | ErrNoFileDescriptorProtos
  | ErrExternal "byte list"

section \<open>Frame codec: encoder (package protocol)\<close>

type_synonym FrameType = byte

definition FrameData :: FrameType where
  "FrameData = 0x00"

definition FrameTrailer :: FrameType where
  "FrameTrailer = 0x80"

record Frame =
  Type :: FrameType
  Payload :: "byte list"

text \<open>\<open>binary.BigEndian.PutUint32\<close> and \<open>binary.BigEndian.Uint32\<close> on a 4-byte buffer.\<close>

definition PutUint32 :: "32 word \<Rightarrow> byte list" where
  "PutUint32 v = [ucast (drop_bit 24 v), ucast (drop_bit 16 v), ucast (drop_bit 8 v), ucast v]"

definition Uint32 :: "byte list \<Rightarrow> 32 word" where
  "Uint32 b = ucast (b ! 3) OR push_bit 8 (ucast (b ! 2)) OR push_bit 16 (ucast (b ! 1))
     OR push_bit 24 (ucast (b ! 0))"

text \<open>
  \<open>Encoder.EncodeFrame\<close> performs three writes on its writer. The writer of the
  package-level helpers is a \<open>bytes.Buffer\<close>, whose \<open>Write\<close> appends and returns no
  error; the buffer is the list of bytes written so far. The payload length is converted
  with \<open>uint32(len(frame.Payload))\<close>, which keeps the low 32 bits.
\<close>

definition Encoder_EncodeFrame :: "byte list \<Rightarrow> Frame \<Rightarrow> error option \<times> byte list" where
  "Encoder_EncodeFrame writer frame =
     (let w1 = writer @ [Type frame];
          lengthBuf = PutUint32 (word_of_nat (length (Payload frame)));
          w2 = w1 @ lengthBuf;
          w3 = w2 @ Payload frame
      in (None, w3))"



definition EncodeFrame :: "Frame \<Rightarrow> error + byte list" where
  "EncodeFrame frame =
     (case Encoder_EncodeFrame [] frame of
        (Some err, buffer) \<Rightarrow> Inl err
      | (None, buffer) \<Rightarrow> Inr buffer)"

section \<open>Frame codec: decoder (package protocol)\<close>

definition MaxMessageSize :: int where
  "MaxMessageSize = 16 * 1024 * 1024"

text \<open>
  The decoder reads from a \<open>bytes.Reader\<close>: its state is the list of unread bytes.
\<close>

record Decoder =
  reader :: "byte list"
  maxMsgSize :: int

definition NewDecoder :: "byte list \<Rightarrow> Decoder" where
  "NewDecoder r = \<lparr>reader = r, maxMsgSize = MaxMessageSize\<rparr>"

definition SetMaxMessageSize :: "Decoder \<Rightarrow> int \<Rightarrow> Decoder" where
  "SetMaxMessageSize decoder sz = decoder\<lparr>maxMsgSize := sz\<rparr>"

text \<open>
  \<open>io.ReadFull(r, buf)\<close> with \<open>len(buf) = n\<close> on a \<open>bytes.Reader\<close>: nothing to read
  for an empty buffer; \<open>io.EOF\<close> when no byte is left; \<open>io.ErrUnexpectedEOF\<close> when
  some but fewer than \<open>n\<close> bytes are left (they are consumed); otherwise the next \<open>n\<close>
  bytes.
\<close>

definition ReadFull :: "byte list \<Rightarrow> nat \<Rightarrow> (error + byte list) \<times> byte list" where
  "ReadFull r n =
     (if n = 0 then (Inr [], r)
      else if r = [] then (Inl EOF, r)
      else if length r < n then (Inl ErrUnexpectedEOF, [])
      else (Inr (take n r), drop n r))"

definition DecodeFrame :: "Decoder \<Rightarrow> (error + Frame) \<times> Decoder" where
  "DecodeFrame decoder =
     (case ReadFull (reader decoder) 5 of
        (Inl err, r1) \<Rightarrow> (Inl err, decoder\<lparr>reader := r1\<rparr>)
      | (Inr header, r1) \<Rightarrow>
          (let frameType = header ! 0;
               len = Uint32 (take 4 (drop 1 header))
           in if int (unat len) > maxMsgSize decoder
              then (Inl (ErrMessageSize (unat len) (maxMsgSize decoder)), decoder\<lparr>reader := r1\<rparr>)
              else if len > 0
              then (case ReadFull r1 (unat len) of
                      (Inl err, r2) \<Rightarrow> (Inl (ErrReadPayload err), decoder\<lparr>reader := r2\<rparr>)
                    | (Inr payload, r2) \<Rightarrow>
                        (Inr \<lparr>Type = frameType, Payload = payload\<rparr>, decoder\<lparr>reader := r2\<rparr>))
              else (Inr \<lparr>Type = frameType, Payload = []\<rparr>, decoder\<lparr>reader := r1\<rparr>)))"

lemma ReadFull_shorter:
  "ReadFull r n = (Inr bs, r') \<Longrightarrow> 0 < n \<Longrightarrow> length r' < length r"
  by (auto simp: ReadFull_def split: if_splits)

lemma ReadFull_not_longer:
  "ReadFull r n = (res, r') \<Longrightarrow> length r' \<le> length r"
  by (auto simp: ReadFull_def split: if_splits)

lemma DecodeFrame_shorter:
  assumes "DecodeFrame decoder = (Inr frame, decoder')"
  shows "length (reader decoder') < length (reader decoder)"
proof -
  obtain res r1 where r1: "ReadFull (reader decoder) 5 = (res, r1)"
    by (cases "ReadFull (reader decoder) 5")
  with assms obtain header where h: "res = Inr header"
    by (cases res) (auto simp: DecodeFrame_def)
  have lt: "length r1 < length (reader decoder)"
    using ReadFull_shorter [of "reader decoder" 5 header r1] r1 h by simp
  show ?thesis
  proof (cases "Uint32 (take 4 (drop 1 header)) > 0")
    case False
    with assms r1 h lt show ?thesis
      by (auto simp: DecodeFrame_def Let_def split: if_splits)
  next
    case True
    obtain res2 r2 where r2: "ReadFull r1 (unat (Uint32 (take 4 (drop 1 header)))) = (res2, r2)"
      by (cases "ReadFull r1 (unat (Uint32 (take 4 (drop 1 header))))")
    have "length r2 \<le> length r1"
      using ReadFull_not_longer [OF r2] .
    with assms r1 h lt r2 True show ?thesis
      by (auto simp: DecodeFrame_def Let_def split: if_splits sum.splits)
  qed
qed




text \<open>
  \<open>Decoder.DecodeAll\<close>: frames are collected until \<open>DecodeFrame\<close> returns exactly
  \<open>io.EOF\<close> (then no error is returned) or another error (returned with the frames
  read so far). A wrapped error is not equal to \<open>io.EOF\<close>.
\<close>

function DecodeAll_loop :: "Decoder \<Rightarrow> Frame list \<Rightarrow> (Frame list \<times> error option) \<times> Decoder" where
  "DecodeAll_loop decoder frames =
     (case DecodeFrame decoder of
        (Inl err, decoder') \<Rightarrow>
          (if err = EOF then ((frames, None), decoder') else ((frames, Some err), decoder'))
      | (Inr frame, decoder') \<Rightarrow> DecodeAll_loop decoder' (frames @ [frame]))"
  by pat_completeness auto
termination
  by (relation "measure (\<lambda>(d, fs). length (reader d))") (auto dest: DecodeFrame_shorter [OF sym])

declare DecodeAll_loop.simps [simp del]

definition DecodeAll :: "Decoder \<Rightarrow> (Frame list \<times> error option) \<times> Decoder" where
  "DecodeAll decoder = DecodeAll_loop decoder []"

subsection \<open>Trailers\<close>

record Status =
  Code :: int
  Message :: "byte list"

record DecodedResponse =
  Messages :: "byte list list"
  Trailers :: "byte list \<rightharpoonup> byte list"
  Status :: "Status option"

text \<open>\<open>bytes.IndexByte\<close>: the index of the first occurrence, \<open>None\<close> for Go's \<open>-1\<close>.\<close>

fun IndexByte :: "byte list \<Rightarrow> byte \<Rightarrow> nat option" where
  "IndexByte [] c = None"
| "IndexByte (b # bs) c = (if b = c then Some 0 else map_option Suc (IndexByte bs c))"

text \<open>
  \<open>bufio.Scanner\<close> with its default split function \<open>ScanLines\<close> and its default
  buffer, whose size is capped at \<open>MaxScanTokenSize\<close> (64 KiB), reading from a
  \<open>bytes.Reader\<close>. \<open>Scan r\<close> is one call of \<open>scanner.Scan()\<close> when \<open>r\<close> is the input
  not yet tokenised: a line ends at the first \<open>\n\<close>, which must lie within the first
  \<open>MaxScanTokenSize\<close> bytes; one trailing \<open>\r\<close> is dropped; a last line without
  \<open>\n\<close> is a token if it is non-empty and shorter than the buffer cap. \<open>None\<close> is
  \<open>Scan\<close> returning false: at the end of input, or with \<open>ErrTooLong\<close> when the buffer
  is full and holds no \<open>\n\<close> (the error is never inspected by \<open>parseTrailers\<close>).
\<close>

definition MaxScanTokenSize :: nat where
  "MaxScanTokenSize = 64 * 1024"

definition dropCR :: "byte list \<Rightarrow> byte list" where
  "dropCR data = (if data \<noteq> [] \<and> last data = 0x0D then butlast data else data)"

definition Scan :: "byte list \<Rightarrow> (byte list \<times> byte list) option" where
  "Scan r =
     (case IndexByte (take MaxScanTokenSize r) 0x0A of
        Some i \<Rightarrow> Some (dropCR (take i r), drop (i + 1) r)
      | None \<Rightarrow>
          (if length r \<ge> MaxScanTokenSize then None
           else if r = [] then None
           else Some (dropCR r, [])))"

text \<open>\<open>strings.SplitN(s, sep, 2)\<close> for a one-byte separator: cut at its first occurrence.\<close>

definition SplitN2 :: "byte list \<Rightarrow> byte \<Rightarrow> byte list list" where
  "SplitN2 s sep =
     (case IndexByte s sep of
        None \<Rightarrow> [s]
      | Some m \<Rightarrow> [take m s, drop (m + 1) s])"

text \<open>
  \<open>strings.ToLower\<close> and \<open>strings.TrimSpace\<close> as they act on ASCII text: the letters
  \<open>A\<close> to \<open>Z\<close> are mapped to \<open>a\<close> to \<open>z\<close>, and the white space removed at both ends
  is \<open>\t \n \v \f \r\<close> and the blank. On input with bytes from \<open>0x80\<close> on, Go decodes
  UTF-8 and applies the Unicode tables instead; the statements below that depend on these
  two functions are made for ASCII trailer text.
\<close>

definition isUpper :: "byte \<Rightarrow> bool" where
  "isUpper b = (0x41 \<le> b \<and> b \<le> 0x5A)"

definition ToLower :: "byte list \<Rightarrow> byte list" where
  "ToLower s = map (\<lambda>b. if isUpper b then b + 0x20 else b) s"

definition isSpace :: "byte \<Rightarrow> bool" where
  "isSpace b = (b = 0x09 \<or> b = 0x0A \<or> b = 0x0B \<or> b = 0x0C \<or> b = 0x0D \<or> b = 0x20)"

definition TrimSpace :: "byte list \<Rightarrow> byte list" where
  "TrimSpace s = rev (dropWhile isSpace (rev (dropWhile isSpace s)))"

text \<open>
  \<open>fmt.Sscanf(value, "%d", &code)\<close> with \<open>code\<close> initially 0, as the resulting value
  of \<open>code\<close>: leading white space is skipped (a newline is an error there), one sign
  is accepted, then at least one decimal digit is required and all following digits are
  taken; the token is converted by \<open>strconv.ParseInt(tok, 10, 64)\<close>, which fails outside
  the 64-bit range. On every failure \<open>code\<close> keeps its value 0; text after the digits is
  ignored.
\<close>

definition isDigit :: "byte \<Rightarrow> bool" where
  "isDigit b = (0x30 \<le> b \<and> b \<le> 0x39)"

fun SkipSpace :: "byte list \<Rightarrow> byte list option" where
  "SkipSpace [] = Some []"
| "SkipSpace (b # bs) =
     (if b = 0x0A then None
      else if isSpace b then SkipSpace bs
      else Some (b # bs))"

definition decimal :: "byte list \<Rightarrow> int" where
  "decimal ds = foldl (\<lambda>acc d. acc * 10 + (uint d - 0x30)) 0 ds"

definition Sscanf_d :: "byte list \<Rightarrow> int" where
  "Sscanf_d val =
     (case SkipSpace val of
        None \<Rightarrow> 0
      | Some s \<Rightarrow>
          (let neg = (s \<noteq> [] \<and> hd s = 0x2D);
               s1 = (if s \<noteq> [] \<and> (hd s = 0x2B \<or> hd s = 0x2D) then tl s else s);
               digits = takeWhile isDigit s1
           in if digits = [] then 0
              else (let i = (if neg then - decimal digits else decimal digits)
                    in if - (2 ^ 63) \<le> i \<and> i < 2 ^ 63 then i else 0)))"

text \<open>The keys \<open>"grpc-status"\<close> and \<open>"grpc-message"\<close> as bytes.\<close>

definition grpc_status_key :: "byte list" where
  "grpc_status_key = [0x67, 0x72, 0x70, 0x63, 0x2D, 0x73, 0x74, 0x61, 0x74, 0x75, 0x73]"

definition grpc_message_key :: "byte list" where
  "grpc_message_key = [0x67, 0x72, 0x70, 0x63, 0x2D, 0x6D, 0x65, 0x73, 0x73, 0x61, 0x67, 0x65]"

lemma IndexByte_less: "IndexByte bs c = Some i \<Longrightarrow> i < length bs"
  by (induction bs arbitrary: i) (auto split: if_splits)

lemma Scan_shorter: "Scan r = Some (line, r') \<Longrightarrow> length r' < length r"
  by (auto simp: Scan_def split: option.splits if_splits dest!: IndexByte_less)

text \<open>
  \<open>parseTrailers\<close>: the body of the scanner loop is \<open>parseTrailers_line\<close>, on the
  pair of the map \<open>trailers\<close> and the pointer \<open>status\<close> (\<open>None\<close> for \<open>nil\<close>).
\<close>

definition parseTrailers_line ::
  "byte list \<Rightarrow> (byte list \<rightharpoonup> byte list) \<times> Status option \<Rightarrow> (byte list \<rightharpoonup> byte list) \<times> Status option" where
  "parseTrailers_line line st =
     (case st of (trailers, status) \<Rightarrow>
        if line = [] then (trailers, status)
        else (let parts = SplitN2 line 0x3A
              in if length parts \<noteq> 2 then (trailers, status)
                 else (let key = TrimSpace (ToLower (parts ! 0));
                           val = TrimSpace (parts ! 1);
                           trailers' = trailers(key \<mapsto> val)
                       in if key = grpc_status_key
                          then (let code = Sscanf_d val;
                                    status' = (case status of None \<Rightarrow> \<lparr>Code = 0, Message = []\<rparr> | Some s \<Rightarrow> s)
                                in (trailers', Some (status'\<lparr>Code := code\<rparr>)))
                          else if key = grpc_message_key
                          then (let status' = (case status of None \<Rightarrow> \<lparr>Code = 0, Message = []\<rparr> | Some s \<Rightarrow> s)
                                in (trailers', Some (status'\<lparr>Message := val\<rparr>)))
                          else (trailers', status))))"

function parseTrailers_loop ::
  "byte list \<Rightarrow> (byte list \<rightharpoonup> byte list) \<times> Status option \<Rightarrow> (byte list \<rightharpoonup> byte list) \<times> Status option" where
  "parseTrailers_loop r st =
     (case Scan r of
        None \<Rightarrow> st
      | Some (line, r') \<Rightarrow> parseTrailers_loop r' (parseTrailers_line line st))"
  by pat_completeness auto
termination
  by (relation "measure (\<lambda>(r, st). length r)") (auto dest: Scan_shorter)

declare parseTrailers_loop.simps [simp del]

definition parseTrailers :: "byte list \<Rightarrow> (byte list \<rightharpoonup> byte list) \<times> Status option" where
  "parseTrailers data = parseTrailers_loop data (Map.empty, None)"

text \<open>
  \<open>DecodeResponse\<close>: the body of the loop over the decoded frames is
  \<open>DecodeResponse_frame\<close>, with the three branches of the \<open>switch\<close> in their order.
\<close>

definition mergeTrailers ::
  "DecodedResponse \<Rightarrow> (byte list \<rightharpoonup> byte list) \<times> Status option \<Rightarrow> DecodedResponse" where
  "mergeTrailers resp parsed =
     (case parsed of (trailers, status) \<Rightarrow>
        resp\<lparr>Trailers := Trailers resp ++ trailers,
             Status := (case status of None \<Rightarrow> Status resp | Some s \<Rightarrow> Some s)\<rparr>)"

definition DecodeResponse_frame :: "DecodedResponse \<Rightarrow> Frame \<Rightarrow> DecodedResponse" where
  "DecodeResponse_frame resp frame =
     (if Type frame = FrameData then resp\<lparr>Messages := Messages resp @ [Payload frame]\<rparr>
      else if Type frame = FrameTrailer then mergeTrailers resp (parseTrailers (Payload frame))
      else if Type frame AND 0x80 \<noteq> 0 then mergeTrailers resp (parseTrailers (Payload frame))
      else resp)"

definition DecodeResponse :: "byte list \<Rightarrow> error + DecodedResponse" where
  "DecodeResponse data =
     (case DecodeAll (NewDecoder data) of
        ((frames, err), decoder) \<Rightarrow>
          if err \<noteq> None \<and> err \<noteq> Some EOF then Inl (ErrDecodeFrames (the err))
          else Inr (foldl DecodeResponse_frame
                      \<lparr>Messages = [], Trailers = Map.empty, Status = None\<rparr> frames))"

section \<open>Descriptor utilities (package descriptor)\<close>

text \<open>
  \<open>strings.Split(s, sep)\<close> for a one-byte separator: the pieces between the
  occurrences of the separator, one more than there are occurrences.
\<close>

fun Split :: "byte list \<Rightarrow> byte \<Rightarrow> byte list list" where
  "Split [] sep = [[]]"
| "Split (c # cs) sep =
     (if c = sep then [] # Split cs sep
      else (c # hd (Split cs sep)) # tl (Split cs sep))"

definition ParseServiceMethod :: "byte list \<Rightarrow> error + (byte list \<times> byte list)" where
  "ParseServiceMethod fullMethod =
     (let parts = Split fullMethod 0x2F
      in if length parts \<noteq> 2 then Inl (ErrInvalidMethodFormat fullMethod)
         else Inr (parts ! 0, parts ! 1))"

section \<open>Reflection response extraction (package client)\<close>

text \<open>
  Run-time panics are results of their own. An index expression \<open>data[i]\<close> panics
  unless \<open>0 \<le> i < len(data)\<close>; a slice expression \<open>data[lo:hi]\<close> panics unless
  \<open>0 \<le> lo \<le> hi \<le> cap(data)\<close>. The buffers that reach the extractors are the
  payloads \<open>DecodeFrame\<close> allocates with \<open>make([]byte, length)\<close>, whose capacity is
  their length.
\<close>

datatype panic =
    PanicIndex int nat
  | PanicSlice int int nat

definition at :: "byte list \<Rightarrow> int \<Rightarrow> panic + byte" where
  "at data i =
     (if 0 \<le> i \<and> i < int (length data) then Inr (data ! nat i)
      else Inl (PanicIndex i (length data)))"

definition subslice :: "byte list \<Rightarrow> int \<Rightarrow> int \<Rightarrow> panic + byte list" where
  "subslice data lo hi =
     (if 0 \<le> lo \<and> lo \<le> hi \<and> hi \<le> int (length data)
      then Inr (take (nat (hi - lo)) (drop (nat lo) data))
      else Inl (PanicSlice lo hi (length data)))"

text \<open>
  Addition of two \<open>int\<close> values wraps around at 64 bits. It is written out where a
  length decoded by \<open>readVarint\<close> is added to a position; the other additions
  (\<open>pos++\<close>, \<open>pos += bytesRead\<close>, adding a one-byte length) start from a position
  of at most \<open>len(data)\<close> plus a small constant and cannot overflow.
\<close>

definition add64 :: "int \<Rightarrow> int \<Rightarrow> int" where
  "add64 a b = sint (word_of_int (a + b) :: 64 word)"

text \<open>
  \<open>readVarint\<close>: at most 10 bytes are read; \<open>value\<close> is a 64-bit \<open>int\<close>, so the
  shifted chunk loses the bits above bit 63 and the result is read as signed. There is
  no error result.
\<close>

function readVarint_loop :: "byte list \<Rightarrow> nat \<Rightarrow> 64 word \<Rightarrow> nat \<Rightarrow> nat \<Rightarrow> 64 word \<times> nat" where
  "readVarint_loop data iter val shift bytesRead =
     (if iter < length data \<and> iter < 10
      then (let byteVal = data ! iter;
                bytesRead' = bytesRead + 1;
                val' = val OR push_bit shift (ucast (byteVal AND 0x7f))
            in if byteVal AND 0x80 = 0 then (val', bytesRead')
               else readVarint_loop data (iter + 1) val' (shift + 7) bytesRead')
      else (val, bytesRead))"
  by pat_completeness auto
termination
  by (relation "measure (\<lambda>(data, iter, val, shift, bytesRead). 10 - iter)") auto

declare readVarint_loop.simps [simp del]

definition readVarint :: "byte list \<Rightarrow> int \<times> int" where
  "readVarint data = (case readVarint_loop data 0 0 0 0 of (val, bytesRead) \<Rightarrow> (sint val, int bytesRead))"

text \<open>
  The loop that skips a varint value,
  \<open>for pos < len(data) && data[pos]&0x80 != 0 { pos++ }; pos++\<close>, as the position
  after it.
\<close>

function skipVarint :: "byte list \<Rightarrow> int \<Rightarrow> panic + int" where
  "skipVarint data pos =
     (if pos < int (length data)
      then (case at data pos of
              Inl p \<Rightarrow> Inl p
            | Inr b \<Rightarrow> if b AND 0x80 \<noteq> 0 then skipVarint data (pos + 1) else Inr (pos + 1))
      else Inr (pos + 1))"
  by pat_completeness auto
termination
  by (relation "measure (\<lambda>(data, pos). nat (int (length data) - pos))") auto

declare skipVarint.simps [simp del]

text \<open>
  \<open>parseServiceName\<close>. A decoded length can be negative, so a loop of the walkers that
  adds it to the position need not terminate: not returning is the value \<open>None\<close>. The
  test \<open>if pos >= len(data) { break }\<close> that opens each loop body repeats the loop
  condition and is never true there.
\<close>

partial_function (option) parseServiceName_loop :: "byte list \<Rightarrow> int \<Rightarrow> (panic + byte list) option" where
  "parseServiceName_loop data pos =
     (if pos < int (length data)
      then (case at data pos of
              Inl p \<Rightarrow> Some (Inl p)
            | Inr tag \<Rightarrow>
                (let pos1 = pos + 1;
                     fieldNum = drop_bit 3 tag;
                     wireType = tag AND 0x07
                 in if wireType = 2 \<and> fieldNum = 1
                    then (if pos1 \<ge> int (length data) then Some (Inr [])
                          else (case subslice data pos1 (int (length data)) of
                                  Inl p \<Rightarrow> Some (Inl p)
                                | Inr rest \<Rightarrow>
                                    (case readVarint rest of (len, bytesRead) \<Rightarrow>
                                       (let pos2 = pos1 + bytesRead
                                        in if add64 pos2 len \<le> int (length data)
                                           then (case subslice data pos2 (add64 pos2 len) of
                                                   Inl p \<Rightarrow> Some (Inl p)
                                                 | Inr name \<Rightarrow> Some (Inr name))
                                           else parseServiceName_loop data pos2))))
                    else if wireType = 2
                    then (if pos1 \<ge> int (length data) then Some (Inr [])
                          else (case subslice data pos1 (int (length data)) of
                                  Inl p \<Rightarrow> Some (Inl p)
                                | Inr rest \<Rightarrow>
                                    (case readVarint rest of (len, bytesRead) \<Rightarrow>
                                       parseServiceName_loop data (add64 (pos1 + bytesRead) len))))
                    else if wireType = 0
                    then (case skipVarint data pos1 of
                            Inl p \<Rightarrow> Some (Inl p)
                          | Inr pos2 \<Rightarrow> parseServiceName_loop data pos2)
                    else parseServiceName_loop data (pos1 + 1)))
      else Some (Inr []))"

declare parseServiceName_loop.simps [code]

definition parseServiceName :: "byte list \<Rightarrow> (panic + byte list) option" where
  "parseServiceName data = parseServiceName_loop data 0"

text \<open>\<open>parseServiceList\<close>: names are appended in the order the entries are met.\<close>

partial_function (option) parseServiceList_loop ::
  "byte list \<Rightarrow> int \<Rightarrow> byte list list \<Rightarrow> (panic + byte list list) option" where
  "parseServiceList_loop data pos services =
     (if pos < int (length data)
      then (case at data pos of
              Inl p \<Rightarrow> Some (Inl p)
            | Inr tag \<Rightarrow>
                (let pos1 = pos + 1;
                     fieldNum = drop_bit 3 tag;
                     wireType = tag AND 0x07
                 in if wireType = 2
                    then (if pos1 \<ge> int (length data) then Some (Inr services)
                          else (case subslice data pos1 (int (length data)) of
                                  Inl p \<Rightarrow> Some (Inl p)
                                | Inr rest \<Rightarrow>
                                    (case readVarint rest of (len, bytesRead) \<Rightarrow>
                                       (let pos2 = pos1 + bytesRead
                                        in if add64 pos2 len > int (length data) then Some (Inr services)
                                           else if fieldNum = 1
                                           then (case subslice data pos2 (add64 pos2 len) of
                                                   Inl p \<Rightarrow> Some (Inl p)
                                                 | Inr serviceData \<Rightarrow>
                                                     (case parseServiceName serviceData of
                                                        None \<Rightarrow> None
                                                      | Some (Inl p) \<Rightarrow> Some (Inl p)
                                                      | Some (Inr name) \<Rightarrow>
                                                          parseServiceList_loop data (add64 pos2 len)
                                                            (if name \<noteq> [] then services @ [name] else services)))
                                           else parseServiceList_loop data (add64 pos2 len) services))))
                    else if wireType = 0
                    then (case skipVarint data pos1 of
                            Inl p \<Rightarrow> Some (Inl p)
                          | Inr pos2 \<Rightarrow> parseServiceList_loop data pos2 services)
                    else parseServiceList_loop data (pos1 + 1) services))
      else Some (Inr services))"

declare parseServiceList_loop.simps [code]

definition parseServiceList :: "byte list \<Rightarrow> (panic + byte list list) option" where
  "parseServiceList data = parseServiceList_loop data 0 []"

text \<open>
  \<open>parseListServicesResponse\<close>. Its loop body is a \<open>switch\<close>, so the two \<open>break\<close>
  statements of \<open>case 2\<close> leave the \<open>switch\<close> only and the loop goes on from the
  current position. The error result is always \<open>nil\<close>.
\<close>

partial_function (option) parseListServicesResponse_loop ::
  "byte list \<Rightarrow> int \<Rightarrow> byte list list \<Rightarrow> (panic + byte list list) option" where
  "parseListServicesResponse_loop data pos services =
     (if pos < int (length data)
      then (case at data pos of
              Inl p \<Rightarrow> Some (Inl p)
            | Inr tag \<Rightarrow>
                (let pos1 = pos + 1;
                     fieldNum = drop_bit 3 tag;
                     wireType = tag AND 0x07
                 in if wireType = 0
                    then (case skipVarint data pos1 of
                            Inl p \<Rightarrow> Some (Inl p)
                          | Inr pos2 \<Rightarrow> parseListServicesResponse_loop data pos2 services)
                    else if wireType = 2
                    then (if pos1 \<ge> int (length data)
                          then parseListServicesResponse_loop data pos1 services
                          else (case subslice data pos1 (int (length data)) of
                                  Inl p \<Rightarrow> Some (Inl p)
                                | Inr rest \<Rightarrow>
                                    (case readVarint rest of (len, bytesRead) \<Rightarrow>
                                       (let pos2 = pos1 + bytesRead
                                        in if add64 pos2 len > int (length data)
                                           then parseListServicesResponse_loop data pos2 services
                                           else if fieldNum = 6
                                           then (case subslice data pos2 (add64 pos2 len) of
                                                   Inl p \<Rightarrow> Some (Inl p)
                                                 | Inr nested \<Rightarrow>
                                                     (case parseServiceList nested of
                                                        None \<Rightarrow> None
                                                      | Some (Inl p) \<Rightarrow> Some (Inl p)
                                                      | Some (Inr nestedServices) \<Rightarrow>
                                                          parseListServicesResponse_loop data (add64 pos2 len)
                                                            (services @ nestedServices)))
                                           else parseListServicesResponse_loop data (add64 pos2 len) services))))
                    else parseListServicesResponse_loop data (pos1 + 1) services))
      else Some (Inr services))"

declare parseListServicesResponse_loop.simps [code]

definition parseListServicesResponse :: "byte list \<Rightarrow> (panic + (error + byte list list)) option" where
  "parseListServicesResponse data =
     map_option (map_sum id Inr) (parseListServicesResponse_loop data 0 [])"

text \<open>The names of the two versions of the reflection service and of its method.\<close>

definition reflectionServiceName :: "byte list" where
  "reflectionServiceName = str ''grpc.reflection.v1alpha.ServerReflection''"

definition reflectionMethod :: "byte list" where
  "reflectionMethod = str ''ServerReflectionInfo''"

definition reflectionV1ServiceName :: "byte list" where
  "reflectionV1ServiceName = str ''grpc.reflection.v1.ServerReflection''"

text \<open>The decimal text that the verb \<open>%d\<close> of \<open>fmt\<close> prints for an \<open>int\<close>.\<close>

fun digits :: "nat \<Rightarrow> byte list" where
  "digits n = (if n < 10 then [of_nat (48 + n)] else digits (n div 10) @ [of_nat (48 + n mod 10)])"

declare digits.simps [simp del]

definition itoa :: "int \<Rightarrow> byte list" where
  "itoa i = (if i < 0 then 0x2D # digits (nat (- i)) else digits (nat i))"

text \<open>
  \<open>parseErrorResponse\<close>: the loop ends with the pair of \<open>errorCode\<close> and
  \<open>errorMessage\<close>, from which the result string is formatted. Lengths and the error
  code are read as one byte each, \<open>int(data[pos])\<close>.
\<close>

lemma neg_uint_less_2: "- uint (b :: byte) < 2"
  using uint_nonnegative [of b] by linarith

function parseErrorResponse_loop :: "byte list \<Rightarrow> int \<Rightarrow> int \<Rightarrow> byte list \<Rightarrow> panic + (int \<times> byte list)" where
  "parseErrorResponse_loop data pos errorCode errorMessage =
     (if pos < int (length data)
      then (case at data pos of
              Inl p \<Rightarrow> Inl p
            | Inr tag \<Rightarrow>
                (let pos1 = pos + 1;
                     fieldNum = drop_bit 3 tag;
                     wireType = tag AND 0x07
                 in if wireType = 0 \<and> fieldNum = 1
                    then (case at data pos1 of
                            Inl p \<Rightarrow> Inl p
                          | Inr b \<Rightarrow> parseErrorResponse_loop data (pos1 + 1) (uint b) errorMessage)
                    else if wireType = 2 \<and> fieldNum = 2
                    then (if pos1 \<ge> int (length data) then Inr (errorCode, errorMessage)
                          else (case at data pos1 of
                                  Inl p \<Rightarrow> Inl p
                                | Inr b \<Rightarrow>
                                    (let len = uint b;
                                         pos2 = pos1 + 1
                                     in if pos2 + len \<le> int (length data)
                                        then (case subslice data pos2 (pos2 + len) of
                                                Inl p \<Rightarrow> Inl p
                                              | Inr m \<Rightarrow> parseErrorResponse_loop data (pos2 + len) errorCode m)
                                        else parseErrorResponse_loop data (pos2 + len) errorCode errorMessage)))
                    else if wireType = 2
                    then (if pos1 \<ge> int (length data) then Inr (errorCode, errorMessage)
                          else (case at data pos1 of
                                  Inl p \<Rightarrow> Inl p
                                | Inr b \<Rightarrow>
                                    parseErrorResponse_loop data (pos1 + 1 + uint b) errorCode errorMessage))
                    else if wireType = 0
                    then parseErrorResponse_loop data (pos1 + 1) errorCode errorMessage
                    else parseErrorResponse_loop data (pos1 + 1) errorCode errorMessage))
      else Inr (errorCode, errorMessage))"
  by pat_completeness auto
termination
  by (relation "measure (\<lambda>(data, pos, errorCode, errorMessage). nat (int (length data) - pos))")
     (auto simp: neg_uint_less_2)

declare parseErrorResponse_loop.simps [simp del]

definition parseErrorResponse :: "byte list \<Rightarrow> panic + byte list" where
  "parseErrorResponse data =
     (case parseErrorResponse_loop data 0 0 [] of
        Inl p \<Rightarrow> Inl p
      | Inr (errorCode, errorMessage) \<Rightarrow>
          if errorMessage \<noteq> [] then Inr (errorMessage @ str '' (code '' @ itoa errorCode @ str '')'')
          else if errorCode \<noteq> 0 then Inr (str ''error code '' @ itoa errorCode)
          else Inr [])"

lemma skipVarint_greater: "skipVarint data pos = Inr pos' \<Longrightarrow> pos < pos'"
proof (induction data pos rule: skipVarint.induct)
  case (1 data pos)
  show ?case
  proof (cases "pos < int (length data)")
    case False
    with "1.prems" show ?thesis
      by (subst (asm) skipVarint.simps) auto
  next
    case True
    then obtain b where b: "at data pos = Inr b"
      by (auto simp: at_def split: if_splits)
        (use "1.prems" in \<open>subst (asm) skipVarint.simps, simp add: at_def split: if_splits\<close>)
    show ?thesis
    proof (cases "b AND 0x80 \<noteq> 0")
      case True
      with \<open>pos < int (length data)\<close> b "1.prems" have "skipVarint data (pos + 1) = Inr pos'"
        by (subst (asm) skipVarint.simps) simp
      from "1.IH" [OF \<open>pos < int (length data)\<close> b True this] show ?thesis by simp
    next
      case False
      with \<open>pos < int (length data)\<close> b "1.prems" show ?thesis
        by (subst (asm) skipVarint.simps) simp
    qed
  qed
qed

text \<open>
  \<open>parseReflectionError\<close>: the length of a length-delimited field is read as one byte,
  and the body of field 7 is sliced without a bounds check.
\<close>

function parseReflectionError_loop :: "byte list \<Rightarrow> int \<Rightarrow> panic + byte list" where
  "parseReflectionError_loop data pos =
     (if pos < int (length data)
      then (case at data pos of
              Inl p \<Rightarrow> Inl p
            | Inr tag \<Rightarrow>
                (let pos1 = pos + 1;
                     fieldNum = drop_bit 3 tag;
                     wireType = tag AND 0x07
                 in if wireType = 2
                    then (if pos1 \<ge> int (length data) then Inr []
                          else (case at data pos1 of
                                  Inl p \<Rightarrow> Inl p
                                | Inr b \<Rightarrow>
                                    (let len = uint b;
                                         pos2 = pos1 + 1
                                     in if fieldNum = 7
                                        then (case subslice data pos2 (pos2 + len) of
                                                Inl p \<Rightarrow> Inl p
                                              | Inr body \<Rightarrow> parseErrorResponse body)
                                        else parseReflectionError_loop data (pos2 + len))))
                    else if wireType = 0
                    then (case skipVarint data pos1 of
                            Inl p \<Rightarrow> Inl p
                          | Inr pos2 \<Rightarrow> parseReflectionError_loop data pos2)
                    else parseReflectionError_loop data (pos1 + 1)))
      else Inr [])"
  by pat_completeness auto
termination
  by (relation "measure (\<lambda>(data, pos). nat (int (length data) - pos))")
     (auto simp: neg_uint_less_2 dest: skipVarint_greater)

declare parseReflectionError_loop.simps [simp del]

definition parseReflectionError :: "byte list \<Rightarrow> panic + byte list" where
  "parseReflectionError data = parseReflectionError_loop data 0"

text \<open>
  \<open>ReflectionClient.ListServices\<close>. The two calls of \<open>client.Invoke\<close> go through the
  HTTP transport, which is outside the model: their outcomes are the two arguments, the
  second one being consulted only when the first is an error. \<open>Response\<close> carries the
  fields of \<open>DecodedResponse\<close> and the HTTP status. The two debug lines written to
  standard error for an empty result are not modelled. \<open>sort.Strings\<close> orders strings
  bytewise, as the lexicographic order on byte lists does.
\<close>

record Response = DecodedResponse +
  HTTPStatus :: int

definition reflectionErrorText :: "byte list \<Rightarrow> byte list" where
  "reflectionErrorText errMsg =
     str ''reflection error: '' @ errMsg @ [0x0A, 0x0A]
       @ str ''Note: Server reflection uses bidirectional streaming which has limited support over gRPC-Web.''
       @ [0x0A]
       @ str ''Consider using proto files instead: grpcwebcurl -p <proto-file> ...''"

definition ListServices ::
  "error + Response \<Rightarrow> error + Response \<Rightarrow> (panic + (error + byte list list)) option" where
  "ListServices invoke_v1alpha invoke_v1 =
     (case (case invoke_v1alpha of
              Inr resp \<Rightarrow> Inr resp
            | Inl err \<Rightarrow>
                (case invoke_v1 of
                   Inr resp \<Rightarrow> Inr resp
                 | Inl err' \<Rightarrow> Inl (ErrReflectionRequestFailed err'))) of
        Inl err \<Rightarrow> Some (Inr (Inl err))
      | Inr resp \<Rightarrow>
          if Status resp \<noteq> None \<and> Code (the (Status resp)) \<noteq> 0
          then Some (Inr (Inl (ErrReflectionStatus (Message (the (Status resp))) (Code (the (Status resp))))))
          else if length (Messages resp) = 0 then Some (Inr (Inl ErrNoResponse))
          else (case parseListServicesResponse (Messages resp ! 0) of
                  None \<Rightarrow> None
                | Some (Inl p) \<Rightarrow> Some (Inl p)
                | Some (Inr (Inl err)) \<Rightarrow> Some (Inr (Inl err))
                | Some (Inr (Inr services)) \<Rightarrow>
                    (case parseReflectionError (Messages resp ! 0) of
                       Inl p \<Rightarrow> Some (Inl p)
                     | Inr errMsg \<Rightarrow>
                         if errMsg \<noteq> [] then Some (Inr (Inl (ErrReflection (reflectionErrorText errMsg))))
                         else Some (Inr (Inr (sort services))))))"

text \<open>
  \<open>parseAllFileDescriptorProtos\<close>. \<open>proto.Unmarshal\<close> into a
  \<open>FileDescriptorProto\<close> belongs to the protobuf library and is a parameter.
\<close>

partial_function (option) parseAllFileDescriptorProtos_loop ::
  "(byte list \<Rightarrow> error + 'fdp) \<Rightarrow> byte list \<Rightarrow> int \<Rightarrow> 'fdp list \<Rightarrow> (panic + (error + 'fdp list)) option" where
  "parseAllFileDescriptorProtos_loop Unmarshal data pos fds =
     (if pos < int (length data)
      then (case at data pos of
              Inl p \<Rightarrow> Some (Inl p)
            | Inr tag \<Rightarrow>
                (let pos1 = pos + 1;
                     fieldNum = drop_bit 3 tag;
                     wireType = tag AND 0x07
                 in if wireType = 2
                    then (if pos1 \<ge> int (length data)
                          then Some (Inr (if fds = [] then Inl ErrNoFileDescriptorProtos else Inr fds))
                          else (case subslice data pos1 (int (length data)) of
                                  Inl p \<Rightarrow> Some (Inl p)
                                | Inr rest \<Rightarrow>
                                    (case readVarint rest of (len, bytesRead) \<Rightarrow>
                                       (let pos2 = pos1 + bytesRead
                                        in if add64 pos2 len > int (length data)
                                           then Some (Inr (if fds = [] then Inl ErrNoFileDescriptorProtos else Inr fds))
                                           else if fieldNum = 1
                                           then (case subslice data pos2 (add64 pos2 len) of
                                                   Inl p \<Rightarrow> Some (Inl p)
                                                 | Inr fdpBytes \<Rightarrow>
                                                     (case Unmarshal fdpBytes of
                                                        Inl err \<Rightarrow> Some (Inr (Inl err))
                                                      | Inr fdp \<Rightarrow>
                                                          parseAllFileDescriptorProtos_loop Unmarshal data
                                                            (add64 pos2 len) (fds @ [fdp])))
                                           else parseAllFileDescriptorProtos_loop Unmarshal data
                                                  (add64 pos2 len) fds))))
                    else if wireType = 0
                    then (case skipVarint data pos1 of
                            Inl p \<Rightarrow> Some (Inl p)
                          | Inr pos2 \<Rightarrow> parseAllFileDescriptorProtos_loop Unmarshal data pos2 fds)
                    else parseAllFileDescriptorProtos_loop Unmarshal data (pos1 + 1) fds))
      else Some (Inr (if fds = [] then Inl ErrNoFileDescriptorProtos else Inr fds)))"

declare parseAllFileDescriptorProtos_loop.simps [code]

definition parseAllFileDescriptorProtos ::
  "(byte list \<Rightarrow> error + 'fdp) \<Rightarrow> byte list \<Rightarrow> (panic + (error + 'fdp list)) option" where
  "parseAllFileDescriptorProtos Unmarshal data = parseAllFileDescriptorProtos_loop Unmarshal data 0 []"

section \<open>Notions used to state the properties\<close>

text \<open>
  The value a byte sequence denotes as a big-endian unsigned integer, written
  independently of \<open>PutUint32\<close> and \<open>Uint32\<close>.
\<close>

definition be_value :: "byte list \<Rightarrow> nat" where
  "be_value bs = foldl (\<lambda>acc b. acc * 256 + unat b) 0 bs"

text \<open>
  The bytes \<open>EncodeFrame\<close> produces for a frame, and the frames whose payload is within
  the default limit of the decoder that \<open>DecodeResponse\<close> creates.
\<close>

definition frame_bytes :: "Frame \<Rightarrow> byte list" where
  "frame_bytes f = (case EncodeFrame f of Inl err \<Rightarrow> [] | Inr bs \<Rightarrow> bs)"

definition within_limit :: "Frame \<Rightarrow> bool" where
  "within_limit f = (int (length (Payload f)) \<le> MaxMessageSize)"

text \<open>
  A reading of a base-128 varint that follows the wire format and not the loop: at most
  \<open>k\<close> bytes, the low seven bits of each byte being the next chunk, least significant
  chunk first, and the top bit saying that another byte follows. \<open>varint n\<close> is the
  wire encoding of \<open>n\<close>, and \<open>chunk_value\<close> the number that the chunks of a byte
  sequence denote.
\<close>

fun spec_varint :: "nat \<Rightarrow> byte list \<Rightarrow> 64 word \<times> nat" where
  "spec_varint 0 bs = (0, 0)"
| "spec_varint (Suc k) [] = (0, 0)"
| "spec_varint (Suc k) (b # bs) =
     (if b AND 0x80 = 0 then (ucast (b AND 0x7f), 1)
      else (case spec_varint k bs of (v, n) \<Rightarrow> (ucast (b AND 0x7f) OR push_bit 7 v, n + 1)))"

fun varint :: "nat \<Rightarrow> byte list" where
  "varint n = (if n < 128 then [of_nat n] else (of_nat (n mod 128) OR 0x80) # varint (n div 128))"

declare varint.simps [simp del]

definition chunk_value :: "byte list \<Rightarrow> nat" where
  "chunk_value bs = foldr (\<lambda>b acc. unat (b AND 0x7f) + 128 * acc) bs 0"

text \<open>
  The wire encoding of a length-delimited field with a one-byte tag, and the list-services
  response built from it: field 6 (tag \<open>0x32\<close>) holds the \<open>ListServiceResponse\<close>,
  whose repeated field 1 (tag \<open>0x0A\<close>) holds one \<open>ServiceResponse\<close> for each name,
  whose field 1 is the name.
\<close>

definition ld_field :: "byte \<Rightarrow> byte list \<Rightarrow> byte list" where
  "ld_field tag payload = tag # varint (length payload) @ payload"

definition service_entry :: "byte list \<Rightarrow> byte list" where
  "service_entry name = ld_field 0x0A (ld_field 0x0A name)"

definition list_services_response :: "byte list list \<Rightarrow> byte list" where
  "list_services_response names = ld_field 0x32 (concat (map service_entry names))"






section \<open>Properties of the frame codec\<close>

lemma be_bytes_nat:
  fixes x :: nat
  assumes "x < 2 ^ 32"
  shows "(((x div 2 ^ 24) mod 256 * 256 + (x div 2 ^ 16) mod 256) * 256
        + (x div 2 ^ 8) mod 256) * 256 + x mod 256 = x"
proof -
  have a: "x div 2 ^ 24 mod 256 = x div 2 ^ 24"
    using assms by (simp add: less_mult_imp_div_less)
  have b: "x div 2 ^ 24 = (x div 2 ^ 16) div 256"
    by (simp add: div_mult2_eq [symmetric])
  have c: "x div 2 ^ 16 = (x div 2 ^ 8) div 256"
    by (simp add: div_mult2_eq [symmetric])
  have d: "x div 2 ^ 8 = x div 256"
    by simp
  have "(x div 2 ^ 24) * 256 + (x div 2 ^ 16) mod 256 = x div 2 ^ 16"
    unfolding b by (rule div_mult_mod_eq)
  with a have "(x div 2 ^ 24) mod 256 * 256 + (x div 2 ^ 16) mod 256 = x div 2 ^ 16"
    by simp
  moreover have "(x div 2 ^ 16) * 256 + (x div 2 ^ 8) mod 256 = x div 2 ^ 8"
    unfolding c by (rule div_mult_mod_eq)
  moreover have "(x div 2 ^ 8) * 256 + x mod 256 = x"
    unfolding d by (rule div_mult_mod_eq)
  ultimately show ?thesis by simp
qed

lemma be_value_PutUint32: "be_value (PutUint32 v) = unat v"
proof -
  have lt: "unat v < 2 ^ 32"
    using unsigned_less [of v, where 'a = nat] by simp
  have "be_value (PutUint32 v) =
      (((unat v div 2 ^ 24) mod 256 * 256 + (unat v div 2 ^ 16) mod 256) * 256
        + (unat v div 2 ^ 8) mod 256) * 256 + unat v mod 256"
    by (simp add: be_value_def PutUint32_def unsigned_ucast_eq unat_drop_bit_eq
        drop_bit_eq_div take_bit_eq_mod unat_div)
  also have "\<dots> = unat v"
    using lt by (rule be_bytes_nat)
  finally show ?thesis .
qed

lemma Uint32_PutUint32: "Uint32 (PutUint32 v) = v"
  unfolding Uint32_def PutUint32_def
  apply (rule bit_word_eqI)
  apply (auto simp: bit_simps)
  subgoal for n by (cases "n < 24") (simp_all add: not_less)
  done

lemma PutUint32_Uint32: "PutUint32 (Uint32 [b0, b1, b2, b3]) = [b0, b1, b2, b3]"
  unfolding Uint32_def PutUint32_def
  apply simp
  apply (intro conjI)
     apply (rule bit_word_eqI; auto simp: bit_simps dest: bit_imp_le_length)+
  done

lemma unat_Uint32: "unat (Uint32 [b0, b1, b2, b3]) = be_value [b0, b1, b2, b3]"
  using be_value_PutUint32 [of "Uint32 [b0, b1, b2, b3]"] by (simp add: PutUint32_Uint32)

lemma length_PutUint32: "length (PutUint32 v) = 4"
  by (simp add: PutUint32_def)

lemma take_4_PutUint32: "take 4 (PutUint32 v) = PutUint32 v"
  by (simp add: length_PutUint32)

lemma unat_word_of_length:
  "length p < 2 ^ 32 \<Longrightarrow> unat (word_of_nat (length p) :: 32 word) = length p"
  by (simp add: unat_of_nat take_bit_nat_eq_self)

lemma EncodeFrame_eq:
  "EncodeFrame f = Inr (Type f # PutUint32 (word_of_nat (length (Payload f))) @ Payload f)"
  by (simp add: EncodeFrame_def Encoder_EncodeFrame_def)


lemma ReadFull_header:
  "ReadFull (t # PutUint32 n @ rest) 5 = (Inr (t # PutUint32 n), rest)"
  by (simp add: ReadFull_def PutUint32_def)


lemma DecodeFrame_encoded:
  assumes "length p < 2 ^ 32" and "int (length p) \<le> m"
  shows "DecodeFrame \<lparr>reader = t # PutUint32 (word_of_nat (length p)) @ p @ rest, maxMsgSize = m\<rparr>
       = (Inr \<lparr>Type = t, Payload = p\<rparr>, \<lparr>reader = rest, maxMsgSize = m\<rparr>)"
proof -
  let ?n = "word_of_nat (length p) :: 32 word"
  have un: "unat ?n = length p"
    using assms(1) by (rule unat_word_of_length)
  have ui: "uint ?n = int (length p)"
    unfolding uint_nat un ..
  note tk = take_4_PutUint32
  show ?thesis
  proof (cases "p = []")
    case True
    then show ?thesis
      using assms(2) by (simp add: DecodeFrame_def ReadFull_header Let_def Uint32_PutUint32 tk)
  next
    case False
    then have pos: "?n > 0"
      using un by (simp add: word_greater_zero_iff) (metis length_0_conv unat_0)
    have rf: "ReadFull (p @ rest) (length p) = (Inr p, rest)"
      using False by (simp add: ReadFull_def)
    show ?thesis
      using assms(2) pos rf
      by (simp add: DecodeFrame_def ReadFull_header Let_def Uint32_PutUint32 tk un ui)
  qed
qed






text \<open>
  C4. When the reader holds a complete 5-byte header whose four length bytes denote,
  big-endian, a length above the decoder's \<open>maxMsgSize\<close>, \<open>DecodeFrame\<close> returns the
  size error and has consumed the header only: every byte after the header is still
  unread.
\<close>

theorem DecodeFrame_size_limit:
  assumes "reader decoder = t # b0 # b1 # b2 # b3 # rest"
    and "int (be_value [b0, b1, b2, b3]) > maxMsgSize decoder"
  shows "DecodeFrame decoder
       = (Inl (ErrMessageSize (be_value [b0, b1, b2, b3]) (maxMsgSize decoder)),
          decoder\<lparr>reader := rest\<rparr>)"
proof -
  have "ReadFull (t # b0 # b1 # b2 # b3 # rest) 5 = (Inr [t, b0, b1, b2, b3], rest)"
    by (simp add: ReadFull_def)
  moreover have "int (unat (Uint32 [b0, b1, b2, b3])) > maxMsgSize decoder"
    using assms(2) by (simp only: unat_Uint32)
  ultimately show ?thesis
    using assms(1) by (simp add: DecodeFrame_def Let_def flip: unat_Uint32)
qed

theorem DecodeFrame_size_limit_witness:
  "DecodeFrame \<lparr>reader = [0x00, 0x00, 0x01, 0x00, 0x00, 0x41, 0x42], maxMsgSize = 1000\<rparr>
     = (Inl (ErrMessageSize 65536 1000), \<lparr>reader = [0x41, 0x42], maxMsgSize = 1000\<rparr>)"
  using DecodeFrame_size_limit [of "\<lparr>reader = [0x00, 0x00, 0x01, 0x00, 0x00, 0x41, 0x42], maxMsgSize = 1000\<rparr>"
      "0x00" "0x00" "0x01" "0x00" "0x00" "[0x41, 0x42]"]
  by (simp add: be_value_def)

section \<open>Properties of DecodeAll and DecodeResponse\<close>

lemma frame_bytes_eq:
  "frame_bytes f = Type f # PutUint32 (word_of_nat (length (Payload f))) @ Payload f"
  by (simp add: frame_bytes_def EncodeFrame_eq)

lemma DecodeFrame_empty:
  "DecodeFrame \<lparr>reader = [], maxMsgSize = m\<rparr> = (Inl EOF, \<lparr>reader = [], maxMsgSize = m\<rparr>)"
  by (simp add: DecodeFrame_def ReadFull_def)

lemma DecodeFrame_frame_bytes:
  assumes "length (Payload f) < 2 ^ 32" and "int (length (Payload f)) \<le> m"
  shows "DecodeFrame \<lparr>reader = frame_bytes f @ rest, maxMsgSize = m\<rparr>
       = (Inr f, \<lparr>reader = rest, maxMsgSize = m\<rparr>)"
  using DecodeFrame_encoded [OF assms, of "Type f" rest] by (simp add: frame_bytes_eq)

lemma DecodeAll_loop_frames:
  assumes "list_all (\<lambda>f. length (Payload f) < 2 ^ 32 \<and> int (length (Payload f)) \<le> m) fs"
  shows "DecodeAll_loop \<lparr>reader = concat (map frame_bytes fs) @ rest, maxMsgSize = m\<rparr> acc
       = DecodeAll_loop \<lparr>reader = rest, maxMsgSize = m\<rparr> (acc @ fs)"
  using assms
proof (induction fs arbitrary: acc)
  case Nil
  show ?case by simp
next
  case (Cons f fs)
  then have f: "length (Payload f) < 2 ^ 32" "int (length (Payload f)) \<le> m"
    and fs: "list_all (\<lambda>f. length (Payload f) < 2 ^ 32 \<and> int (length (Payload f)) \<le> m) fs"
    by simp_all
  have "DecodeAll_loop \<lparr>reader = frame_bytes f @ concat (map frame_bytes fs) @ rest, maxMsgSize = m\<rparr> acc
      = DecodeAll_loop \<lparr>reader = concat (map frame_bytes fs) @ rest, maxMsgSize = m\<rparr> (acc @ [f])"
    by (subst DecodeAll_loop.simps) (simp add: DecodeFrame_frame_bytes [OF f])
  also have "\<dots> = DecodeAll_loop \<lparr>reader = rest, maxMsgSize = m\<rparr> ((acc @ [f]) @ fs)"
    by (rule Cons.IH [OF fs])
  finally show ?case by simp
qed

lemma DecodeAll_loop_empty:
  "DecodeAll_loop \<lparr>reader = [], maxMsgSize = m\<rparr> acc = ((acc, None), \<lparr>reader = [], maxMsgSize = m\<rparr>)"
  by (subst DecodeAll_loop.simps) (simp add: DecodeFrame_empty)

lemma within_limit_list:
  "list_all within_limit fs \<Longrightarrow>
   list_all (\<lambda>f. length (Payload f) < 2 ^ 32 \<and> int (length (Payload f)) \<le> MaxMessageSize) fs"
  by (induction fs) (auto simp: within_limit_def MaxMessageSize_def)

lemma DecodeResponse_frames:
  assumes "list_all within_limit fs"
  shows "DecodeResponse (concat (map frame_bytes fs))
       = Inr (foldl DecodeResponse_frame \<lparr>Messages = [], Trailers = Map.empty, Status = None\<rparr> fs)"
  using DecodeAll_loop_frames [OF within_limit_list [OF assms], of "[]" "[]"]
  by (simp add: DecodeResponse_def DecodeAll_def NewDecoder_def DecodeAll_loop_empty)

lemma DecodeResponse_frame_cases:
  "DecodeResponse_frame resp f =
     (if Type f = 0x00 then resp\<lparr>Messages := Messages resp @ [Payload f]\<rparr>
      else if Type f AND 0x80 \<noteq> 0 then mergeTrailers resp (parseTrailers (Payload f))
      else resp)"
  by (auto simp: DecodeResponse_frame_def FrameData_def FrameTrailer_def)

lemma foldl_frames_Messages:
  "Messages (foldl DecodeResponse_frame resp fs)
     = Messages resp @ map Payload (filter (\<lambda>f. Type f = 0x00) fs)"
  by (induction fs arbitrary: resp)
     (auto simp: DecodeResponse_frame_cases mergeTrailers_def split: prod.splits)

lemma foldl_frames_Trailers:
  "Trailers (foldl DecodeResponse_frame resp fs)
     = foldl (\<lambda>m f. m ++ fst (parseTrailers (Payload f))) (Trailers resp)
         (filter (\<lambda>f. Type f AND 0x80 \<noteq> 0) fs)"
  by (induction fs arbitrary: resp)
     (auto simp: DecodeResponse_frame_cases mergeTrailers_def split: prod.splits)

lemma foldl_frames_Status:
  "Status (foldl DecodeResponse_frame resp fs)
     = foldl (\<lambda>s f. case snd (parseTrailers (Payload f)) of None \<Rightarrow> s | Some x \<Rightarrow> Some x)
         (Status resp) (filter (\<lambda>f. Type f AND 0x80 \<noteq> 0) fs)"
  by (induction fs arbitrary: resp)
     (auto simp: DecodeResponse_frame_cases mergeTrailers_def split: prod.splits)

lemma parseTrailers_Nil: "parseTrailers [] = (Map.empty, None)"
  unfolding parseTrailers_def
  by (subst parseTrailers_loop.simps) (simp add: Scan_def)

text \<open>
  C6, as the code has it. For every stream of encoded frames within the size limit,
  \<open>DecodeResponse\<close> succeeds; its messages are the payloads, in order, of exactly the
  frames whose flag byte is \<open>0x00\<close>; the frames parsed as trailers are exactly those
  whose flag byte has the bit \<open>0x80\<close> set, whatever the low seven bits are: their
  parsed trailers are merged in order (later entries replace earlier ones) and the last
  status found is kept. A frame with the high bit clear and a non-zero flag byte
  contributes nothing.
\<close>

theorem DecodeResponse_classification:
  assumes "list_all within_limit fs"
  shows "\<exists>resp. DecodeResponse (concat (map frame_bytes fs)) = Inr resp
     \<and> Messages resp = map Payload (filter (\<lambda>f. Type f = 0x00) fs)
     \<and> Trailers resp = foldl (\<lambda>m f. m ++ fst (parseTrailers (Payload f))) Map.empty
                          (filter (\<lambda>f. Type f AND 0x80 \<noteq> 0) fs)
     \<and> Status resp = foldl (\<lambda>s f. case snd (parseTrailers (Payload f)) of None \<Rightarrow> s | Some x \<Rightarrow> Some x)
                          None (filter (\<lambda>f. Type f AND 0x80 \<noteq> 0) fs)"
  by (simp add: DecodeResponse_frames [OF assms] foldl_frames_Messages foldl_frames_Trailers
      foldl_frames_Status)

theorem DecodeResponse_classification_witness:
  "list_all within_limit
     [\<lparr>Type = 0x00, Payload = [0x01]\<rparr>, \<lparr>Type = 0x01, Payload = [0x02]\<rparr>, \<lparr>Type = 0x81, Payload = []\<rparr>]
   \<and> (\<exists>resp. DecodeResponse
          [0x00, 0x00, 0x00, 0x00, 0x01, 0x01,
           0x01, 0x00, 0x00, 0x00, 0x01, 0x02,
           0x81, 0x00, 0x00, 0x00, 0x00] = Inr resp
        \<and> Messages resp = [[0x01]] \<and> Trailers resp = Map.empty \<and> Status resp = None)"
proof -
  have h: "list_all within_limit
     [\<lparr>Type = 0x00, Payload = [0x01]\<rparr>, \<lparr>Type = 0x01, Payload = [0x02]\<rparr>, \<lparr>Type = 0x81, Payload = []\<rparr>]"
    by (simp add: within_limit_def MaxMessageSize_def)
  from DecodeResponse_classification [OF h] h show ?thesis
    by (simp add: frame_bytes_eq PutUint32_def parseTrailers_Nil)
qed

text \<open>
  C6 as stated fails for a frame whose flag byte is \<open>0x01\<close>: its high bit is clear,
  and its payload is not counted as a message.
\<close>

theorem flag_01_not_a_message_counterexample:
  "DecodeResponse [0x01, 0x00, 0x00, 0x00, 0x01, 0x41]
     = Inr \<lparr>Messages = [], Trailers = Map.empty, Status = None\<rparr>"
proof -
  have h: "list_all within_limit [\<lparr>Type = 0x01, Payload = [0x41]\<rparr>]"
    by (simp add: within_limit_def MaxMessageSize_def)
  from DecodeResponse_frames [OF h] show ?thesis
    by (simp add: frame_bytes_eq PutUint32_def DecodeResponse_frame_cases)
qed

section \<open>Properties of ParseServiceMethod\<close>

lemma Split_nonempty: "Split s sep \<noteq> []"
  by (induction s) auto

lemma length_Split: "length (Split s sep) = count_list s sep + 1"
  by (induction s) (auto simp: Split_nonempty)

text \<open>
  C8. \<open>ParseServiceMethod\<close> returns the two parts of \<open>"pkg.Svc/Method"\<close>, returns two
  empty strings for \<open>"/"\<close>, and returns the format error for every input in which the
  number of slashes is not one (none, or more than one).
\<close>

theorem ParseServiceMethod_cases:
  "ParseServiceMethod (str ''pkg.Svc/Method'') = Inr (str ''pkg.Svc'', str ''Method'')
   \<and> ParseServiceMethod (str ''/'') = Inr ([], [])
   \<and> (count_list s 0x2F \<noteq> 1 \<longrightarrow> ParseServiceMethod s = Inl (ErrInvalidMethodFormat s))"
  by (simp add: ParseServiceMethod_def length_Split str_def)

theorem ParseServiceMethod_cases_witness:
  "count_list (str ''a/b/c'') 0x2F \<noteq> 1
   \<and> ParseServiceMethod (str ''a/b/c'') = Inl (ErrInvalidMethodFormat (str ''a/b/c''))
   \<and> count_list (str ''pkg.Svc.Method'') 0x2F \<noteq> 1
   \<and> ParseServiceMethod (str ''pkg.Svc.Method'') = Inl (ErrInvalidMethodFormat (str ''pkg.Svc.Method''))
   \<and> count_list [] 0x2F \<noteq> 1
   \<and> ParseServiceMethod [] = Inl (ErrInvalidMethodFormat [])"
  using ParseServiceMethod_cases [of "str ''a/b/c''"]
    ParseServiceMethod_cases [of "str ''pkg.Svc.Method''"]
    ParseServiceMethod_cases [of "[]"]
  by (simp add: str_def)

section \<open>Properties of readVarint\<close>

lemma spec_varint_Nil [simp]: "spec_varint k [] = (0, 0)"
  by (cases k) simp_all

lemma readVarint_loop_spec:
  "readVarint_loop data iter val shift br =
     (case spec_varint (10 - iter) (drop iter data) of (v, n) \<Rightarrow> (val OR push_bit shift v, br + n))"
proof (induction data iter val shift br rule: readVarint_loop.induct)
  case (1 data iter val shift bytesRead)
  show ?case
  proof (cases "iter < length data \<and> iter < 10")
    case False
    then have "spec_varint (10 - iter) (drop iter data) = (0, 0)"
      by (cases "iter < 10") auto
    with False show ?thesis
      by (subst readVarint_loop.simps) auto
  next
    case True
    then have d: "drop iter data = data ! iter # drop (Suc iter) data"
      by (simp add: Cons_nth_drop_Suc)
    from True have k: "10 - iter = Suc (10 - Suc iter)"
      by arith
    show ?thesis
    proof (cases "data ! iter AND 0x80 = 0")
      case c: True
      with True show ?thesis
        by (subst readVarint_loop.simps) (simp add: d k Let_def)
    next
      case c: False
      have "readVarint_loop data iter val shift bytesRead
          = readVarint_loop data (iter + 1) (val OR push_bit shift (ucast (data ! iter AND 0x7f)))
              (shift + 7) (bytesRead + 1)"
        using True c by (subst readVarint_loop.simps) (simp add: Let_def)
      also have "\<dots> = (case spec_varint (10 - (iter + 1)) (drop (iter + 1) data) of
             (v, n) \<Rightarrow> (val OR push_bit shift (ucast (data ! iter AND 0x7f)) OR push_bit (shift + 7) v,
                        bytesRead + 1 + n))"
        using "1.IH" [OF True refl refl refl c] by (simp add: or.assoc)
      also have "\<dots> = (case spec_varint (10 - iter) (drop iter data) of
             (v, n) \<Rightarrow> (val OR push_bit shift v, bytesRead + n))"
        using c by (simp add: d k split: prod.splits)
      finally show ?thesis .
    qed
  qed
qed

lemma readVarint_spec:
  "readVarint data = (case spec_varint 10 data of (v, n) \<Rightarrow> (sint v, int n))"
  by (simp add: readVarint_def readVarint_loop_spec split: prod.splits)

lemma and_7f: "(b :: byte) AND 0x7f = take_bit 7 b"
proof -
  have "(0x7f :: byte) = mask 7"
    by (simp add: mask_eq_exp_minus_1)
  then show ?thesis
    by (simp add: take_bit_eq_mask)
qed

lemma and_80: "((b :: byte) AND 0x80 = 0) = (\<not> bit b 7)"
proof -
  have "(0x80 :: byte) = 2 ^ 7"
    by simp
  then show ?thesis
    by (simp only: and_exp_eq_0_iff_not_bit)
qed

lemma byte_of_nat_small:
  assumes "n < 128"
  shows "\<not> bit (of_nat n :: byte) 7" and "ucast (take_bit 7 (of_nat n :: byte)) = (of_nat n :: 64 word)"
proof -
  have t: "take_bit 7 n = n"
    using assms by (simp add: take_bit_nat_eq_self)
  have "\<not> bit n 7"
    using assms by (simp add: bit_iff_odd)
  then show "\<not> bit (of_nat n :: byte) 7"
    by (simp add: bit_simps)
  have b: "i < 7" if "bit n i" for i
    using that t by (metis bit_take_bit_iff)
  show "ucast (take_bit 7 (of_nat n :: byte)) = (of_nat n :: 64 word)"
    by (rule bit_word_eqI) (auto simp: bit_simps dest: b)
qed

lemma byte_cont:
  "bit ((of_nat (n mod 128) :: byte) OR 0x80) 7"
  "ucast (take_bit 7 ((of_nat (n mod 128) :: byte) OR 0x80)) = (of_nat (n mod 128) :: 64 word)"
proof -
  have e: "(0x80 :: byte) = 2 ^ 7"
    by simp
  show "bit ((of_nat (n mod 128) :: byte) OR 0x80) 7"
    unfolding e by (simp add: bit_simps)
  have m: "n mod 128 = take_bit 7 n"
    by (simp add: take_bit_eq_mod)
  show "ucast (take_bit 7 ((of_nat (n mod 128) :: byte) OR 0x80)) = (of_nat (n mod 128) :: 64 word)"
    unfolding e m by (rule bit_word_eqI) (auto simp: bit_simps)
qed

lemma of_nat_split_128:
  "(of_nat (n mod 128) :: 64 word) OR push_bit 7 (of_nat (n div 128)) = of_nat n"
proof -
  have z: "(of_nat (n mod 128) :: 64 word) AND push_bit 7 (of_nat (n div 128)) = 0"
    by (rule bit_word_eqI) (auto simp: bit_simps take_bit_eq_mod [symmetric, of n 7, simplified])
  have "(of_nat n :: 64 word) = of_nat (n mod 128 + 128 * (n div 128))"
    by simp
  also have "\<dots> = of_nat (n mod 128) + push_bit 7 (of_nat (n div 128))"
    by (simp only: of_nat_add of_nat_mult push_bit_eq_mult) simp
  also have "\<dots> = of_nat (n mod 128) OR push_bit 7 (of_nat (n div 128))"
    using z by (rule disjunctive_add_eq_or)
  finally show ?thesis by simp
qed

lemma spec_varint_varint:
  "length (varint n) \<le> k \<Longrightarrow> spec_varint k (varint n @ rest) = (of_nat n, length (varint n))"
proof (induction n arbitrary: k rule: varint.induct)
  case (1 n)
  from "1.prems" obtain k' where k: "k = Suc k'"
    by (cases k) (simp_all add: varint.simps [of n] split: if_splits)
  show ?case
  proof (cases "n < 128")
    case True
    then show ?thesis
      using byte_of_nat_small [OF True]
      by (simp add: varint.simps [of n] k and_80 and_7f)
  next
    case False
    then have v: "varint n = (of_nat (n mod 128) OR 0x80) # varint (n div 128)"
      by (simp add: varint.simps [of n])
    from "1.prems" have "length (varint (n div 128)) \<le> k'"
      by (simp add: v k)
    from "1.IH" [OF False this]
    show ?thesis
      using byte_cont [of n]
      by (simp add: v k and_80 and_7f of_nat_split_128)
  qed
qed

lemma chunk_or:
  "(ucast (take_bit 7 (b :: byte)) :: 64 word) OR push_bit 7 (of_nat c)
     = of_nat (unat (take_bit 7 b) + 128 * c)"
proof -
  have z: "(ucast (take_bit 7 b) :: 64 word) AND push_bit 7 (of_nat c) = 0"
    by (rule bit_word_eqI) (auto simp: bit_simps)
  have "(of_nat (unat (take_bit 7 b) + 128 * c) :: 64 word)
      = ucast (take_bit 7 b) + push_bit 7 (of_nat c)"
    by (simp add: push_bit_eq_mult)
  also have "\<dots> = ucast (take_bit 7 b) OR push_bit 7 (of_nat c)"
    using z by (rule disjunctive_add_eq_or)
  finally show ?thesis by simp
qed

lemma spec_varint_overlong:
  "k \<le> length bs \<Longrightarrow> list_all (\<lambda>b. b AND 0x80 \<noteq> 0) (take k bs) \<Longrightarrow>
   spec_varint k bs = (of_nat (chunk_value (take k bs)), k)"
proof (induction k arbitrary: bs)
  case 0
  show ?case by (simp add: chunk_value_def)
next
  case (Suc k)
  then obtain b bs' where bs: "bs = b # bs'"
    by (cases bs) auto
  with Suc.prems have "k \<le> length bs'" "list_all (\<lambda>b. b AND 0x80 \<noteq> 0) (take k bs')" "b AND 0x80 \<noteq> 0"
    by simp_all
  with Suc.IH [of bs'] show ?case
    by (simp add: bs chunk_value_def and_7f chunk_or)
qed

text \<open>
  C5, as the code has it. \<open>readVarint\<close> has no error result. When the first ten bytes
  of the buffer all have the continuation bit set, it stops after these ten bytes and
  returns, with \<open>bytesRead = 10\<close>, the number their chunks denote, cut to 64 bits and
  read as a signed \<open>int\<close>.
\<close>

theorem readVarint_overlong:
  assumes "10 \<le> length data" and "list_all (\<lambda>b. b AND 0x80 \<noteq> 0) (take 10 data)"
  shows "readVarint data = (sint (word_of_nat (chunk_value (take 10 data)) :: 64 word), 10)"
  by (simp add: readVarint_spec spec_varint_overlong [OF assms])

theorem readVarint_overlong_witness:
  "10 \<le> length [0xFF, 0xFF, 0xFF, 0xFF, 0xFF, 0xFF, 0xFF, 0xFF, 0xFF, 0xFF, 0x01 :: byte]
   \<and> list_all (\<lambda>b. b AND 0x80 \<noteq> 0) (take 10 [0xFF, 0xFF, 0xFF, 0xFF, 0xFF, 0xFF, 0xFF, 0xFF, 0xFF, 0xFF, 0x01 :: byte])
   \<and> readVarint [0xFF, 0xFF, 0xFF, 0xFF, 0xFF, 0xFF, 0xFF, 0xFF, 0xFF, 0xFF, 0x01] = (- 1, 10)"
  using readVarint_overlong [of "[0xFF, 0xFF, 0xFF, 0xFF, 0xFF, 0xFF, 0xFF, 0xFF, 0xFF, 0xFF, 0x01]"]
  by (simp add: chunk_value_def)

text \<open>
  C5 as stated fails on a varint of eleven continuation bytes: \<open>readVarint\<close> returns
  the value 0 and \<open>bytesRead = 10\<close>.
\<close>

theorem readVarint_overlong_counterexample:
  "readVarint [0x80, 0x80, 0x80, 0x80, 0x80, 0x80, 0x80, 0x80, 0x80, 0x80, 0x80, 0x01] = (0, 10)"
  by (simp add: readVarint_def readVarint_loop.simps Let_def)

section \<open>Totality of the reflection extractors\<close>

lemma readVarint_max:
  "readVarint [0xFF, 0xFF, 0xFF, 0xFF, 0xFF, 0xFF, 0xFF, 0xFF, 0x7F] = (9223372036854775807, 9)"
  by (simp add: readVarint_def readVarint_loop.simps Let_def)

lemma readVarint_minus_11:
  "readVarint [0xF5, 0xFF, 0xFF, 0xFF, 0xFF, 0xFF, 0xFF, 0xFF, 0xFF, 0x01] = (- 11, 10)"
  by (simp add: readVarint_def readVarint_loop.simps Let_def)

lemma parseListServicesResponse_loop_never_returns:
  assumes "parseListServicesResponse_loop data pos services = Some y"
  shows "\<not> (data = [0x0a, 0xF5, 0xFF, 0xFF, 0xFF, 0xFF, 0xFF, 0xFF, 0xFF, 0xFF, 0x01] \<and> pos = 0 \<and> services = [])"
proof (rule parseListServicesResponse_loop.raw_induct
    [where P = "\<lambda>data pos services y. \<not> (data = [0x0a, 0xF5, 0xFF, 0xFF, 0xFF, 0xFF, 0xFF, 0xFF, 0xFF, 0xFF, 0x01] \<and> pos = 0 \<and> services = [])",
      OF _ assms], goal_cases)
  case prems: (1 f data pos services y)
  show ?case
  proof
    assume eq: "data = [0x0a, 0xF5, 0xFF, 0xFF, 0xFF, 0xFF, 0xFF, 0xFF, 0xFF, 0xFF, 0x01] \<and> pos = 0 \<and> services = []"
    with prems(2) have "f [0x0a, 0xF5, 0xFF, 0xFF, 0xFF, 0xFF, 0xFF, 0xFF, 0xFF, 0xFF, 0x01] 0 [] = Some y"
      by (simp add: at_def subslice_def Let_def readVarint_minus_11 add64_def)
    from prems(1) [OF this] show False by simp
  qed
qed

lemma parseListServicesResponse_diverges:
  "parseListServicesResponse [0x0a, 0xF5, 0xFF, 0xFF, 0xFF, 0xFF, 0xFF, 0xFF, 0xFF, 0xFF, 0x01] = None"
proof (cases "parseListServicesResponse_loop [0x0a, 0xF5, 0xFF, 0xFF, 0xFF, 0xFF, 0xFF, 0xFF, 0xFF, 0xFF, 0x01] 0 []")
  case None
  then show ?thesis by (simp add: parseListServicesResponse_def)
next
  case (Some y)
  from parseListServicesResponse_loop_never_returns [OF this] show ?thesis by simp
qed

text \<open>
  C1 does not hold of the code. The error extractor slices the body of field 7 with the
  declared one-byte length and no bounds check: on the two bytes \<open>3a 05\<close> (field 7,
  declared length 5, nothing left) the slice expression \<open>data[2:7]\<close> panics. The
  service-list and file-descriptor extractors do check \<open>pos+length > len(data)\<close>, but
  with a length that \<open>readVarint\<close> decodes into a 64-bit \<open>int\<close>: for the declared
  length \<open>2^63 - 1\<close> the sum wraps around, the check passes and the slice expression
  panics; for the declared length \<open>-11\<close> the position returns to the start of the field
  and the loop never ends.
\<close>

theorem extractors_not_total:
  "parseReflectionError [0x3a, 0x05] = Inl (PanicSlice 2 7 2)
   \<and> parseListServicesResponse [0x32, 0xFF, 0xFF, 0xFF, 0xFF, 0xFF, 0xFF, 0xFF, 0xFF, 0x7F]
       = Some (Inl (PanicSlice 10 (- 9223372036854775799) 10))
   \<and> parseAllFileDescriptorProtos (\<lambda>b. Inl (ErrExternal [])) [0x0a, 0xFF, 0xFF, 0xFF, 0xFF, 0xFF, 0xFF, 0xFF, 0xFF, 0x7F]
       = Some (Inl (PanicSlice 10 (- 9223372036854775799) 10))
   \<and> parseListServicesResponse [0x0a, 0xF5, 0xFF, 0xFF, 0xFF, 0xFF, 0xFF, 0xFF, 0xFF, 0xFF, 0x01] = None"
proof -
  have a: "parseReflectionError [0x3a, 0x05] = Inl (PanicSlice 2 7 2)"
    by (simp add: parseReflectionError_def parseReflectionError_loop.simps at_def subslice_def Let_def)
  have b: "parseListServicesResponse [0x32, 0xFF, 0xFF, 0xFF, 0xFF, 0xFF, 0xFF, 0xFF, 0xFF, 0x7F]
       = Some (Inl (PanicSlice 10 (- 9223372036854775799) 10))"
    unfolding parseListServicesResponse_def
    by (subst parseListServicesResponse_loop.simps)
       (simp add: at_def subslice_def Let_def readVarint_max add64_def)
  have c: "parseAllFileDescriptorProtos (\<lambda>b. Inl (ErrExternal [])) [0x0a, 0xFF, 0xFF, 0xFF, 0xFF, 0xFF, 0xFF, 0xFF, 0xFF, 0x7F]
       = Some (Inl (PanicSlice 10 (- 9223372036854775799) 10))"
    unfolding parseAllFileDescriptorProtos_def
    by (subst parseAllFileDescriptorProtos_loop.simps)
       (simp add: at_def subslice_def Let_def readVarint_max add64_def)
  from a b c parseListServicesResponse_diverges show ?thesis
    by (intro conjI)
qed

section \<open>Properties of the reflection walkers\<close>

lemma varint_nonempty: "varint n \<noteq> []"
  by (subst varint.simps) simp

lemma length_varint_le: "n < 2 ^ (7 * k) \<Longrightarrow> 0 < k \<Longrightarrow> length (varint n) \<le> k"
proof (induction n arbitrary: k rule: varint.induct)
  case (1 n)
  show ?case
  proof (cases "n < 128")
    case True
    with "1.prems" show ?thesis
      by (simp add: varint.simps [of n])
  next
    case False
    from "1.prems" obtain k' where k: "k = Suc k'"
      by (cases k) auto
    have "k' \<noteq> 0"
    proof
      assume "k' = 0"
      with "1.prems" k False show False by simp
    qed
    moreover have "n div 128 < 2 ^ (7 * k')"
    proof -
      have "n < 128 * 2 ^ (7 * k')"
        using "1.prems"(1) by (simp add: k power_add)
      then show ?thesis
        by (simp add: less_mult_imp_div_less mult.commute)
    qed
    ultimately have "length (varint (n div 128)) \<le> k'"
      using "1.IH" [OF False] by simp
    then show ?thesis
      using False by (simp add: varint.simps [of n] k)
  qed
qed

lemma readVarint_varint:
  assumes "n < 2 ^ 63"
  shows "readVarint (varint n @ rest) = (int n, int (length (varint n)))"
proof -
  have "length (varint n) \<le> 9"
    using length_varint_le [of n 9] assms by simp
  then have "spec_varint 10 (varint n @ rest) = (of_nat n, length (varint n))"
    by (intro spec_varint_varint) simp
  moreover have "sint (of_nat n :: 64 word) = int n"
    using assms by (simp add: signed_of_nat signed_take_bit_int_eq_self)
  ultimately show ?thesis
    by (simp add: readVarint_spec)
qed

lemma add64_small: "- (2 ^ 63) \<le> a + b \<Longrightarrow> a + b < 2 ^ 63 \<Longrightarrow> add64 a b = a + b"
  unfolding add64_def sint_sbintrunc' by (simp add: signed_take_bit_int_eq_self)

lemma at_append: "at (pre @ b # post) (int (length pre)) = Inr b"
  by (simp add: at_def)

lemma subslice_rest:
  "subslice (pre @ mid) (int (length pre)) (int (length (pre @ mid))) = Inr mid"
  by (simp add: subslice_def)

lemma subslice_mid:
  "subslice (pre @ mid @ post) (int (length pre)) (int (length pre) + int (length mid)) = Inr mid"
  by (simp add: subslice_def)

text \<open>One length-delimited field met at position \<open>length pre\<close>.\<close>

lemma ld_field_facts:
  fixes pre payload post :: "byte list" and tag :: byte
  defines "data \<equiv> pre @ ld_field tag payload @ post"
  defines "pos2 \<equiv> int (length pre) + 1 + int (length (varint (length payload)))"
  assumes "length data < 2 ^ 63"
  shows "at data (int (length pre)) = Inr tag"
    and "int (length pre) + 1 < int (length data)"
    and "subslice data (int (length pre) + 1) (int (length data)) = Inr (varint (length payload) @ payload @ post)"
    and "readVarint (varint (length payload) @ payload @ post)
          = (int (length payload), int (length (varint (length payload))))"
    and "add64 pos2 (int (length payload)) = pos2 + int (length payload)"
    and "pos2 + int (length payload) \<le> int (length data)"
    and "subslice data pos2 (pos2 + int (length payload)) = Inr payload"
    and "pos2 + int (length payload) = int (length (pre @ ld_field tag payload))"
proof -
  have len: "length data = length pre + 1 + length (varint (length payload)) + length payload + length post"
    by (simp add: data_def ld_field_def)
  show "at data (int (length pre)) = Inr tag"
    by (simp add: data_def ld_field_def at_append)
  show "int (length pre) + 1 < int (length data)"
    using varint_nonempty [of "length payload"] by (simp add: len) (cases "varint (length payload)", auto)
  have "subslice ((pre @ [tag]) @ (varint (length payload) @ payload @ post))
          (int (length (pre @ [tag]))) (int (length ((pre @ [tag]) @ (varint (length payload) @ payload @ post))))
        = Inr (varint (length payload) @ payload @ post)"
    by (rule subslice_rest)
  then show "subslice data (int (length pre) + 1) (int (length data)) = Inr (varint (length payload) @ payload @ post)"
    by (simp add: data_def ld_field_def algebra_simps)
  have "length payload < 2 ^ 63"
    using assms(3) by (simp add: len)
  then show "readVarint (varint (length payload) @ payload @ post)
          = (int (length payload), int (length (varint (length payload))))"
    by (rule readVarint_varint)
  have le: "pos2 + int (length payload) \<le> int (length data)"
    by (simp add: pos2_def len)
  then show "pos2 + int (length payload) \<le> int (length data)" .
  have "int (length data) < 2 ^ 63"
    using assms(3) by simp
  with le have "pos2 + int (length payload) < 2 ^ 63" by linarith
  moreover have "0 \<le> pos2 + int (length payload)"
    by (simp add: pos2_def)
  ultimately show "add64 pos2 (int (length payload)) = pos2 + int (length payload)"
    by (intro add64_small) simp_all
  have "subslice ((pre @ tag # varint (length payload)) @ payload @ post)
          (int (length (pre @ tag # varint (length payload))))
          (int (length (pre @ tag # varint (length payload))) + int (length payload)) = Inr payload"
    by (rule subslice_mid)
  then show "subslice data pos2 (pos2 + int (length payload)) = Inr payload"
    by (simp add: data_def ld_field_def pos2_def algebra_simps)
  show "pos2 + int (length payload) = int (length (pre @ ld_field tag payload))"
    by (simp add: pos2_def ld_field_def)
qed

lemma ld_field_nonempty [simp]: "ld_field tag payload \<noteq> []"
  by (simp add: ld_field_def)

lemma list_services_response_nonempty [simp]: "list_services_response names \<noteq> []"
  by (simp add: list_services_response_def)

lemma parseServiceName_ld_field:
  assumes "length (ld_field 0x0A name) < 2 ^ 63"
  shows "parseServiceName (ld_field 0x0A name) = Some (Inr name)"
proof -
  have "length ([] @ ld_field 0x0A name @ []) < 2 ^ 63"
    using assms by simp
  note f = ld_field_facts [of "[]" "0x0A" name "[]", OF this, simplified]
  show ?thesis
    unfolding parseServiceName_def
    by (subst parseServiceName_loop.simps) (use f in \<open>simp add: Let_def\<close>)
qed

lemma parseServiceList_loop_step:
  assumes "length (pre @ service_entry n @ post) < 2 ^ 63" and "n \<noteq> []"
  shows "parseServiceList_loop (pre @ service_entry n @ post) (int (length pre)) acc
       = parseServiceList_loop (pre @ service_entry n @ post) (int (length (pre @ service_entry n))) (acc @ [n])"
proof -
  have "length (ld_field 0x0A n) < 2 ^ 63"
    using assms(1) by (simp add: service_entry_def ld_field_def [of _ "ld_field 0x0A n"])
  then have name: "parseServiceName (ld_field 0x0A n) = Some (Inr n)"
    by (rule parseServiceName_ld_field)
  have "length (pre @ ld_field 0x0A (ld_field 0x0A n) @ post) < 2 ^ 63"
    using assms(1) by (simp add: service_entry_def)
  note f = ld_field_facts [of pre "0x0A" "ld_field 0x0A n" post, OF this, folded service_entry_def]
  show ?thesis
    by (subst parseServiceList_loop.simps) (use f name assms(2) in \<open>simp add: Let_def\<close>)
qed

lemma parseServiceList_loop_entries:
  assumes "length (pre @ concat (map service_entry names)) < 2 ^ 63"
    and "list_all (\<lambda>n. n \<noteq> []) names"
  shows "parseServiceList_loop (pre @ concat (map service_entry names)) (int (length pre)) acc
       = Some (Inr (acc @ names))"
  using assms
proof (induction names arbitrary: pre acc)
  case Nil
  show ?case
    by (subst parseServiceList_loop.simps) simp
next
  case (Cons n names)
  have "parseServiceList_loop (pre @ service_entry n @ concat (map service_entry names)) (int (length pre)) acc
      = parseServiceList_loop (pre @ service_entry n @ concat (map service_entry names))
          (int (length (pre @ service_entry n))) (acc @ [n])"
    using Cons.prems by (intro parseServiceList_loop_step) simp_all
  also have "\<dots> = Some (Inr ((acc @ [n]) @ names))"
    using Cons.IH [of "pre @ service_entry n" "acc @ [n]"] Cons.prems by simp
  finally show ?case by simp
qed

lemma parseServiceList_entries:
  assumes "length (concat (map service_entry names)) < 2 ^ 63"
    and "list_all (\<lambda>n. n \<noteq> []) names"
  shows "parseServiceList (concat (map service_entry names)) = Some (Inr names)"
  using parseServiceList_loop_entries [of "[]" names "[]"] assms
  by (simp add: parseServiceList_def)

lemma parseListServicesResponse_list:
  assumes "length (list_services_response names) < 2 ^ 63"
    and "list_all (\<lambda>n. n \<noteq> []) names"
  shows "parseListServicesResponse (list_services_response names) = Some (Inr (Inr names))"
proof -
  let ?body = "concat (map service_entry names)"
  have "length ?body < 2 ^ 63"
    using assms(1) by (simp add: list_services_response_def ld_field_def)
  then have body: "parseServiceList ?body = Some (Inr names)"
    using assms(2) by (rule parseServiceList_entries)
  have "length ([] @ ld_field 0x32 ?body @ []) < 2 ^ 63"
    using assms(1) by (simp add: list_services_response_def)
  note f = ld_field_facts [of "[]" "0x32" ?body "[]", OF this, simplified, folded list_services_response_def]
  have "parseListServicesResponse_loop (list_services_response names) 0 []
      = parseListServicesResponse_loop (list_services_response names)
          (int (length (list_services_response names))) names"
    by (subst parseListServicesResponse_loop.simps) (use f body in \<open>simp add: Let_def\<close>)
  also have "\<dots> = Some (Inr names)"
    by (subst parseListServicesResponse_loop.simps) simp
  finally show ?thesis
    by (simp add: parseListServicesResponse_def)
qed

section \<open>Properties of ListServices\<close>

lemma ListServices_first_message:
  assumes "parseListServicesResponse msg = Some (Inr (Inr extracted))"
    and "parseReflectionError msg = Inr errMsg"
  shows "ListServices (Inr \<lparr>Messages = msg # msgs, Trailers = t, Status = None, HTTPStatus = h\<rparr>) invoke_v1
       = (if errMsg \<noteq> [] then Some (Inr (Inl (ErrReflection (reflectionErrorText errMsg))))
          else Some (Inr (Inr (sort extracted))))"
  using assms by (simp add: ListServices_def)

lemma varint_small: "n < 128 \<Longrightarrow> varint n = [of_nat n]"
  by (simp add: varint.simps [of n])

lemma parseReflectionError_field6:
  assumes "length body < 128"
  shows "parseReflectionError (ld_field 0x32 body) = Inr []"
proof -
  have u: "uint (word_of_nat (length body) :: byte) = int (length body)"
    using assms by (simp add: uint_nat unat_of_nat take_bit_nat_eq_self)
  have "parseReflectionError_loop (0x32 # of_nat (length body) # body) 0
      = parseReflectionError_loop (0x32 # of_nat (length body) # body) (2 + int (length body))"
    by (subst parseReflectionError_loop.simps) (simp add: at_def Let_def u)
  also have "\<dots> = Inr []"
    by (subst parseReflectionError_loop.simps) simp
  finally show ?thesis
    using assms by (simp add: parseReflectionError_def ld_field_def varint_small)
qed

lemma ListServices_result:
  assumes "ListServices invoke_v1alpha invoke_v1 = Some (Inr (Inr services))"
  shows "\<exists>resp extracted.
           (invoke_v1alpha = Inr resp \<or> (\<exists>err. invoke_v1alpha = Inl err \<and> invoke_v1 = Inr resp))
           \<and> Messages resp \<noteq> []
           \<and> parseListServicesResponse (Messages resp ! 0) = Some (Inr (Inr extracted))
           \<and> services = sort extracted"
  using assms
  by (auto simp: ListServices_def split: sum.splits option.splits if_splits)

text \<open>
  C9, as the code has it. Whenever \<open>ListServices\<close> returns a list, the list is sorted
  and is the sorted output of the extractor on the first message of the response that
  was used: no name is removed, the reflection service's own name included. On the
  encoding of a list of non-empty names the extractor returns the names in the order in
  which they occur.
\<close>

theorem ListServices_sorted_not_filtered:
  "(ListServices invoke_v1alpha invoke_v1 = Some (Inr (Inr services)) \<longrightarrow>
      sorted services
      \<and> (\<exists>resp extracted.
            (invoke_v1alpha = Inr resp \<or> (\<exists>err. invoke_v1alpha = Inl err \<and> invoke_v1 = Inr resp))
            \<and> Messages resp \<noteq> []
            \<and> parseListServicesResponse (Messages resp ! 0) = Some (Inr (Inr extracted))
            \<and> services = sort extracted \<and> set services = set extracted))
   \<and> (length (list_services_response names) < 2 ^ 63 \<and> list_all (\<lambda>n. n \<noteq> []) names \<longrightarrow>
        parseListServicesResponse (list_services_response names) = Some (Inr (Inr names)))"
proof (intro conjI impI)
  assume a: "ListServices invoke_v1alpha invoke_v1 = Some (Inr (Inr services))"
  from ListServices_result [OF a] obtain resp extracted where
    r: "invoke_v1alpha = Inr resp \<or> (\<exists>err. invoke_v1alpha = Inl err \<and> invoke_v1 = Inr resp)"
      "Messages resp \<noteq> []"
      "parseListServicesResponse (Messages resp ! 0) = Some (Inr (Inr extracted))"
      "services = sort extracted"
    by blast
  from r(4) show "sorted services" by simp
  from r show "\<exists>resp extracted.
            (invoke_v1alpha = Inr resp \<or> (\<exists>err. invoke_v1alpha = Inl err \<and> invoke_v1 = Inr resp))
            \<and> Messages resp \<noteq> []
            \<and> parseListServicesResponse (Messages resp ! 0) = Some (Inr (Inr extracted))
            \<and> services = sort extracted \<and> set services = set extracted"
    by (intro exI [of _ resp] exI [of _ extracted]) simp
next
  assume "length (list_services_response names) < 2 ^ 63 \<and> list_all (\<lambda>n. n \<noteq> []) names"
  then show "parseListServicesResponse (list_services_response names) = Some (Inr (Inr names))"
    by (intro parseListServicesResponse_list) simp_all
qed

lemma two_one_bytes:
  "list_services_response [str ''svc.Two'', str ''svc.One'']
     = [0x32, 0x16, 0x0A, 0x09, 0x0A, 0x07] @ str ''svc.Two'' @ [0x0A, 0x09, 0x0A, 0x07] @ str ''svc.One''"
  by (simp add: list_services_response_def service_entry_def ld_field_def varint_small str_def)

theorem ListServices_sorted_not_filtered_witness:
  "ListServices (Inr \<lparr>Messages = [[0x32, 0x16, 0x0A, 0x09, 0x0A, 0x07] @ str ''svc.Two'' @ [0x0A, 0x09, 0x0A, 0x07] @ str ''svc.One''],
        Trailers = Map.empty, Status = None, HTTPStatus = 200\<rparr>) (Inl (ErrExternal []))
     = Some (Inr (Inr [str ''svc.One'', str ''svc.Two'']))
   \<and> sorted [str ''svc.One'', str ''svc.Two'']
   \<and> length (list_services_response [str ''svc.Two'', str ''svc.One'']) < 2 ^ 63
   \<and> list_all (\<lambda>n. n \<noteq> []) [str ''svc.Two'', str ''svc.One'']
   \<and> parseListServicesResponse ([0x32, 0x16, 0x0A, 0x09, 0x0A, 0x07] @ str ''svc.Two'' @ [0x0A, 0x09, 0x0A, 0x07] @ str ''svc.One'')
       = Some (Inr (Inr [str ''svc.Two'', str ''svc.One'']))"
proof -
  let ?names = "[str ''svc.Two'', str ''svc.One'']"
  let ?msg = "list_services_response ?names"
  have h2: "length ?msg < 2 ^ 63 \<and> list_all (\<lambda>n. n \<noteq> []) ?names"
    by (simp add: two_one_bytes) (simp add: str_def)
  have p: "parseListServicesResponse ?msg = Some (Inr (Inr ?names))"
    using h2 by (intro parseListServicesResponse_list) simp_all
  have e: "parseReflectionError ?msg = Inr []"
    unfolding list_services_response_def
    by (rule parseReflectionError_field6) (simp add: service_entry_def ld_field_def varint_small str_def)
  have h1: "ListServices (Inr \<lparr>Messages = [?msg], Trailers = Map.empty, Status = None, HTTPStatus = 200\<rparr>)
              (Inl (ErrExternal [])) = Some (Inr (Inr [str ''svc.One'', str ''svc.Two'']))"
    unfolding ListServices_first_message [OF p e] by (simp add: str_def)
  from ListServices_sorted_not_filtered
         [of "Inr \<lparr>Messages = [?msg], Trailers = Map.empty, Status = None, HTTPStatus = 200\<rparr>"
             "Inl (ErrExternal [])" "[str ''svc.One'', str ''svc.Two'']" ?names]
       h1 h2
  show ?thesis
    by (simp add: two_one_bytes)
qed

lemma reflection_bytes:
  "list_services_response [reflectionServiceName]
     = [0x32, 0x2C, 0x0A, 0x2A, 0x0A, 0x28] @ reflectionServiceName"
  by (simp add: list_services_response_def service_entry_def ld_field_def varint_small
      reflectionServiceName_def str_def)

text \<open>
  C9 as stated fails when the server lists the reflection service: \<open>ListServices\<close>
  returns its name.
\<close>

theorem ListServices_keeps_reflection_service_counterexample:
  "ListServices (Inr \<lparr>Messages = [[0x32, 0x2C, 0x0A, 0x2A, 0x0A, 0x28] @ reflectionServiceName],
        Trailers = Map.empty, Status = None, HTTPStatus = 200\<rparr>) (Inl (ErrExternal []))
     = Some (Inr (Inr [reflectionServiceName]))"
proof -
  let ?msg = "list_services_response [reflectionServiceName]"
  have p: "parseListServicesResponse ?msg = Some (Inr (Inr [reflectionServiceName]))"
    by (intro parseListServicesResponse_list)
       (simp_all add: reflection_bytes, simp_all add: reflectionServiceName_def str_def)
  have e: "parseReflectionError ?msg = Inr []"
    unfolding list_services_response_def
    by (rule parseReflectionError_field6)
       (simp add: service_entry_def ld_field_def varint_small reflectionServiceName_def str_def)
  show ?thesis
    using ListServices_first_message [OF p e] by (simp add: reflection_bytes)
qed

lemma parseListServicesResponse_field7:
  assumes "length (ld_field 0x3A payload) < 2 ^ 63"
  shows "parseListServicesResponse (ld_field 0x3A payload) = Some (Inr (Inr []))"
proof -
  have "length ([] @ ld_field 0x3A payload @ []) < 2 ^ 63"
    using assms by simp
  note f = ld_field_facts [of "[]" "0x3A" payload "[]", OF this, simplified]
  have "parseListServicesResponse_loop (ld_field 0x3A payload) 0 []
      = parseListServicesResponse_loop (ld_field 0x3A payload) (int (length (ld_field 0x3A payload))) []"
    by (subst parseListServicesResponse_loop.simps) (use f in \<open>simp add: Let_def\<close>)
  also have "\<dots> = Some (Inr [])"
    by (subst parseListServicesResponse_loop.simps) simp
  finally show ?thesis
    by (simp add: parseListServicesResponse_def)
qed

lemma not_found_bytes:
  "ld_field 0x3A ([0x08, 0x05, 0x12, 0x09] @ str ''not found'')
     = [0x3A, 0x0D, 0x08, 0x05, 0x12, 0x09] @ str ''not found''"
  by (simp add: ld_field_def varint_small str_def)

lemma long_message_bytes:
  "ld_field 0x3A ([0x08, 0x05, 0x12, 0x7D] @ replicate 125 0x7A)
     = [0x3A, 0x81, 0x01, 0x08, 0x05, 0x12, 0x7D] @ replicate 125 0x7A"
  by (simp add: ld_field_def varint.simps)

lemma parseErrorResponse_not_found:
  "parseErrorResponse ([0x08, 0x05, 0x12, 0x09] @ str ''not found'') = Inr (str ''not found (code 5)'')"
  unfolding parseErrorResponse_def str_def
  apply (subst parseErrorResponse_loop.simps, simp add: at_def Let_def)
  apply (subst parseErrorResponse_loop.simps, simp add: at_def subslice_def Let_def)
  apply (subst parseErrorResponse_loop.simps, simp add: itoa_def digits.simps)
  done

lemma parseReflectionError_not_found:
  "parseReflectionError ([0x3A, 0x0D, 0x08, 0x05, 0x12, 0x09] @ str ''not found'') = Inr (str ''not found (code 5)'')"
proof -
  have e: "parseErrorResponse [8, 5, 18, 9, 110, 111, 116, 32, 102, 111, 117, 110, 100]
      = Inr [110, 111, 116, 32, 102, 111, 117, 110, 100, 32, 40, 99, 111, 100, 101, 32, 53, 41]"
    using parseErrorResponse_not_found by (simp add: str_def)
  show ?thesis
    unfolding parseReflectionError_def
    by (subst parseReflectionError_loop.simps) (simp add: at_def subslice_def Let_def str_def e)
qed

lemma parseErrorResponse_misaligned:
  "parseErrorResponse (0x01 # 0x08 # 0x05 # 0x12 # 0x7D # replicate 124 0x7A) = Inr []"
  unfolding parseErrorResponse_def
  apply (subst parseErrorResponse_loop.simps, simp add: at_def Let_def)
  apply (subst parseErrorResponse_loop.simps, simp add: at_def Let_def)
  apply (subst parseErrorResponse_loop.simps, simp add: at_def Let_def)
  apply (subst parseErrorResponse_loop.simps, simp add: at_def Let_def nth_append)
  apply (subst parseErrorResponse_loop.simps, simp add: at_def Let_def)
  done

lemma parseReflectionError_long_message:
  "parseReflectionError ([0x3A, 0x81, 0x01, 0x08, 0x05, 0x12, 0x7D] @ replicate 125 0x7A) = Inr []"
  unfolding parseReflectionError_def
  apply (subst parseReflectionError_loop.simps)
  apply (simp add: at_def subslice_def Let_def parseErrorResponse_misaligned)
  done

text \<open>
  C7 does not hold of the code. For the response of the specification's example, an
  \<open>error_response\<close> with code 5 and message \<open>not found\<close>, \<open>ListServices\<close> returns the
  error whose text contains the message. But \<open>parseReflectionError\<close> reads the length
  of a field as one byte, where the sibling walkers call \<open>readVarint\<close>: for an
  \<open>error_response\<close> of 129 bytes (code 5 and a message of 125 bytes), whose length is
  the two-byte varint \<open>81 01\<close>, the body is cut one byte late, no message is found,
  and \<open>ListServices\<close> returns the empty list and no error.
\<close>

theorem ListServices_long_error_message:
  "ListServices (Inr \<lparr>Messages = [[0x3A, 0x0D, 0x08, 0x05, 0x12, 0x09] @ str ''not found''],
        Trailers = Map.empty, Status = None, HTTPStatus = 200\<rparr>) (Inl (ErrExternal []))
     = Some (Inr (Inl (ErrReflection (reflectionErrorText (str ''not found (code 5)'')))))
   \<and> ListServices (Inr \<lparr>Messages = [[0x3A, 0x81, 0x01, 0x08, 0x05, 0x12, 0x7D] @ replicate 125 0x7A],
        Trailers = Map.empty, Status = None, HTTPStatus = 200\<rparr>) (Inl (ErrExternal []))
     = Some (Inr (Inr []))"
proof -
  have p1: "parseListServicesResponse ([0x3A, 0x0D, 0x08, 0x05, 0x12, 0x09] @ str ''not found'') = Some (Inr (Inr []))"
    using parseListServicesResponse_field7 [of "[0x08, 0x05, 0x12, 0x09] @ str ''not found''"]
    unfolding not_found_bytes by (simp add: str_def)
  have p2: "parseListServicesResponse ([0x3A, 0x81, 0x01, 0x08, 0x05, 0x12, 0x7D] @ replicate 125 0x7A) = Some (Inr (Inr []))"
    using parseListServicesResponse_field7 [of "[0x08, 0x05, 0x12, 0x7D] @ replicate 125 0x7A"]
    unfolding long_message_bytes by simp
  have n: "str ''not found (code 5)'' \<noteq> []"
    by (simp add: str_def)
  show ?thesis
    using n
    by (simp only: ListServices_first_message [OF p1 parseReflectionError_not_found]
        ListServices_first_message [OF p2 parseReflectionError_long_message]) simp
qed

section \<open>Properties of parseTrailers and of a response of data frames and a trailer\<close>


























end
